theory Spec2Isabelle
  imports Main "HOL-Library.AList"
begin

section \<open>JavaScript values and strings\<close>

text \<open>
  The descriptor parser and the runtime of \<^verbatim>\<open>src/archive/products.ts\<close>, the noun factory of
  \<^verbatim>\<open>nouns\<close> (\<^verbatim>\<open>unnamed/part_022\<close>) and its serialisation and query context
  (\<^verbatim>\<open>unnamed/part_021\<close>) are embedded as HOL functions.

  A JavaScript string is a \<open>string\<close> (a list of \<open>char\<close>): the model covers the strings whose
  code units are below 256. In that range the class \<^verbatim>\<open>\s\<close> of a regular expression and the
  characters removed by \<^verbatim>\<open>trim()\<close> are the same seven characters, the dot of a regular
  expression excludes line feed and carriage return, and \<^verbatim>\<open>\w\<close> is \<^verbatim>\<open>[A-Za-z0-9_]\<close>.
  Numbers are integers.
\<close>

datatype jsval =
    VUndef
  | VNull
  | VBool bool
  | VNum int
  | VStr string
  | VFun nat
  | VArr "jsval list"
  | VObj "(string \<times> jsval) list"

text \<open>
  \<open>VFun f\<close> is a function value, named by a number; what the function does when it is called
  is given separately (see \<open>behaviour\<close> below). An object is the list of its own enumerable
  entries in the order of \<^verbatim>\<open>Object.entries\<close>.
\<close>

definition isLineTerminator :: "char \<Rightarrow> bool" where
  "isLineTerminator c = (c = CHR 0x0A \<or> c = CHR 0x0D)"

definition isSpace :: "char \<Rightarrow> bool" where
  "isSpace c = (c = CHR 0x09 \<or> c = CHR 0x0A \<or> c = CHR 0x0B \<or> c = CHR 0x0C \<or> c = CHR 0x0D
     \<or> c = CHR 0x20 \<or> c = CHR 0xA0)"

definition isDigit :: "char \<Rightarrow> bool" where
  "isDigit c = (let n = (of_char c :: nat) in 48 \<le> n \<and> n \<le> 57)"

definition isUpper :: "char \<Rightarrow> bool" where
  "isUpper c = (let n = (of_char c :: nat) in 65 \<le> n \<and> n \<le> 90)"

definition isLower :: "char \<Rightarrow> bool" where
  "isLower c = (let n = (of_char c :: nat) in 97 \<le> n \<and> n \<le> 122)"

definition isWord :: "char \<Rightarrow> bool" where
  "isWord c = (isUpper c \<or> isLower c \<or> isDigit c \<or> c = CHR ''_'')"

definition toLowerCase :: "char \<Rightarrow> char" where
  "toLowerCase c = (if isUpper c then char_of (of_char c + (32 :: nat)) else c)"

definition trim :: "string \<Rightarrow> string" where
  "trim s = rev (dropWhile isSpace (rev (dropWhile isSpace s)))"

definition startsWith :: "string \<Rightarrow> string \<Rightarrow> bool" where
  "startsWith s p = (take (length p) s = p)"

text \<open>\<^verbatim>\<open>s.includes(p)\<close>: \<open>p\<close> occurs in \<open>s\<close>.\<close>

fun str_includes :: "string \<Rightarrow> string \<Rightarrow> bool" where
  "str_includes [] p = (p = [])"
| "str_includes (c # cs) p = (startsWith (c # cs) p \<or> str_includes cs p)"

text \<open>\<^verbatim>\<open>s.split(c)\<close> for a one-character separator: never the empty list.\<close>

fun split :: "char \<Rightarrow> string \<Rightarrow> string list" where
  "split c [] = [[]]"
| "split c (x # xs) =
     (if x = c then [] # split c xs
      else (case split c xs of [] \<Rightarrow> [[x]] | p # ps \<Rightarrow> (x # p) # ps))"

section \<open>The regular expressions of the descriptor parser\<close>

text \<open>
  Each regular expression is embedded as the function that returns what the backtracking
  matcher of JavaScript returns: the capture groups of the first match in the matcher's
  search order, or \<open>None\<close>.
\<close>

definition CASCADE_OPERATORS :: "string list" where
  "CASCADE_OPERATORS = [''<~>'', ''<->'', ''<~'', ''~>'', ''<-'', ''->'']"

text \<open>
  The tail \<^verbatim>\<open>\s*(.+)$\<close> of \<^verbatim>\<open>CASCADE_REGEX\<close> and of \<^verbatim>\<open>ROUTE_PARAM_REGEX\<close>: the greedy
  \<^verbatim>\<open>\s*\<close> first takes the whole run of white space and gives characters back one at a time
  until the rest is a non-empty text with no line terminator.
\<close>

definition match_target :: "string \<Rightarrow> string option" where
  "match_target rest =
     find (\<lambda>t. t \<noteq> [] \<and> \<not> list_ex isLineTerminator t)
       (map (\<lambda>j. drop j rest) (rev [0 ..< Suc (length (takeWhile isSpace rest))]))"

text \<open>
  The alternation \<^verbatim>\<open>(<~>|<->|<~|~>|<-|->)\<close> at one position, each alternative followed by
  the tail: the alternatives are tried in the order they are written.
\<close>

fun match_operator :: "string list \<Rightarrow> string \<Rightarrow> (string \<times> string) option" where
  "match_operator [] s = None"
| "match_operator (opr # ops) s =
     (if startsWith s opr then
        (case match_target (drop (length opr) s) of
           Some t \<Rightarrow> Some (opr, t)
         | None \<Rightarrow> match_operator ops s)
      else match_operator ops s)"

text \<open>
  \<^verbatim>\<open>CASCADE_REGEX = /^(.*?)\s*(<~>|<->|<~|~>|<-|->)\s*(.+)$/\<close>. The lazy group 1 grows one
  character at a time, and only over characters the dot matches. For each length of group 1
  the greedy \<^verbatim>\<open>\s*\<close> takes the run of white space that follows; giving characters of that run
  back leaves a white-space character where the operator has to start, so only the whole
  run can be followed by an operator. The result is (group 1, operator, group 3).
\<close>

fun match_cascade_from :: "string \<Rightarrow> string \<Rightarrow> (string \<times> string \<times> string) option" where
  "match_cascade_from pre [] = None"
| "match_cascade_from pre (c # cs) =
     (case match_operator CASCADE_OPERATORS (dropWhile isSpace (c # cs)) of
        Some (opr, t) \<Rightarrow> Some (pre, opr, t)
      | None \<Rightarrow>
          if isLineTerminator c then None else match_cascade_from (pre @ [c]) cs)"

definition CASCADE_REGEX :: "string \<Rightarrow> (string \<times> string \<times> string) option" where
  "CASCADE_REGEX s = match_cascade_from [] s"

text \<open>
  \<^verbatim>\<open>ROUTE_PARAM_REGEX = /^:(\w+)\s+(.+)$/\<close>: the greedy \<^verbatim>\<open>\w+\<close> takes the whole run of word
  characters (a shorter one would be followed by a word character, not by white space).
\<close>

definition ROUTE_PARAM_REGEX :: "string \<Rightarrow> (string \<times> string) option" where
  "ROUTE_PARAM_REGEX s =
     (case s of
        [] \<Rightarrow> None
      | c # cs \<Rightarrow>
          if c = CHR '':'' \<and> takeWhile isWord cs \<noteq> [] then
            (case dropWhile isWord cs of
               [] \<Rightarrow> None
             | w # more \<Rightarrow>
                 if isSpace w then map_option (Pair (takeWhile isWord cs)) (match_target more)
                 else None)
          else None)"

text \<open>
  \<^verbatim>\<open>TARGET_PREDICATE_REGEX = /^(\w+)\.(\w+)$/\<close>.
\<close>

definition TARGET_PREDICATE_REGEX :: "string \<Rightarrow> (string \<times> string) option" where
  "TARGET_PREDICATE_REGEX s =
     (case dropWhile isWord s of
        [] \<Rightarrow> None
      | d # p \<Rightarrow>
          if takeWhile isWord s \<noteq> [] \<and> d = CHR ''.'' \<and> p \<noteq> [] \<and> list_all isWord p
          then Some (takeWhile isWord s, p) else None)"

text \<open>
  \<^verbatim>\<open>FILTER_REGEX = /\[([^\]]+)\]/\<close>, searched from the left: the result is the text before the
  match, group 1 and the text after the match.
\<close>

fun match_filter :: "string \<Rightarrow> string \<Rightarrow> (string \<times> string \<times> string) option" where
  "match_filter pre [] = None"
| "match_filter pre (c # cs) =
     (if c = CHR ''['' \<and> takeWhile (\<lambda>x. x \<noteq> CHR '']'') cs \<noteq> []
         \<and> dropWhile (\<lambda>x. x \<noteq> CHR '']'') cs \<noteq> []
      then Some (pre, takeWhile (\<lambda>x. x \<noteq> CHR '']'') cs, tl (dropWhile (\<lambda>x. x \<noteq> CHR '']'') cs))
      else match_filter (pre @ [c]) cs)"

definition FILTER_REGEX :: "string \<Rightarrow> (string \<times> string \<times> string) option" where
  "FILTER_REGEX s = match_filter [] s"

text \<open>
  \<^verbatim>\<open>FILTER_CONDITION_REGEX = /(\w+)\s*(=|!=|>=|<=|>|<)\s*(.+)/\<close>, searched from the left.
  The tail \<^verbatim>\<open>\s*(.+)\<close> has no anchor: group 3 runs to the next line terminator.
\<close>

definition FILTER_OPERATORS :: "string list" where
  "FILTER_OPERATORS = [''='', ''!='', ''>='', ''<='', ''>'', ''<'']"

definition match_filter_value :: "string \<Rightarrow> string option" where
  "match_filter_value rest =
     find (\<lambda>t. t \<noteq> [])
       (map (\<lambda>j. takeWhile (\<lambda>c. \<not> isLineTerminator c) (drop j rest))
          (rev [0 ..< Suc (length (takeWhile isSpace rest))]))"

fun match_filter_operator :: "string list \<Rightarrow> string \<Rightarrow> (string \<times> string) option" where
  "match_filter_operator [] s = None"
| "match_filter_operator (opr # ops) s =
     (if startsWith s opr then
        (case match_filter_value (drop (length opr) s) of
           Some t \<Rightarrow> Some (opr, t)
         | None \<Rightarrow> match_filter_operator ops s)
      else match_filter_operator ops s)"

fun FILTER_CONDITION_REGEX :: "string \<Rightarrow> (string \<times> string \<times> string) option" where
  "FILTER_CONDITION_REGEX [] = None"
| "FILTER_CONDITION_REGEX (c # cs) =
     (if isWord c then
        (case match_filter_operator FILTER_OPERATORS
                (dropWhile isSpace (dropWhile isWord (c # cs))) of
           Some (opr, v) \<Rightarrow> Some (takeWhile isWord (c # cs), opr, v)
         | None \<Rightarrow> FILTER_CONDITION_REGEX cs)
      else FILTER_CONDITION_REGEX cs)"

text \<open>
  \<^verbatim>\<open>TYPE_SUFFIX_REGEX = /\s*\((number|date|boolean)\)\s*$/i\<close>, searched from the left: the
  result is the text before the match and group 1. The match runs to the end of the string,
  so \<^verbatim>\<open>replace(TYPE_SUFFIX_REGEX, '')\<close> leaves the text before the match.
\<close>

definition TYPE_KEYWORDS :: "string list" where
  "TYPE_KEYWORDS = [''number'', ''date'', ''boolean'']"

definition match_type_suffix_at :: "string \<Rightarrow> string option" where
  "match_type_suffix_at s =
     (case dropWhile isSpace s of
        [] \<Rightarrow> None
      | c # cs \<Rightarrow>
          if c \<noteq> CHR ''('' then None
          else find (\<lambda>kw. map toLowerCase (take (length kw) cs) = kw
                        \<and> (case drop (length kw) cs of
                              [] \<Rightarrow> False
                            | d # r \<Rightarrow> d = CHR '')'' \<and> list_all isSpace r))
                 TYPE_KEYWORDS)"

fun match_type_suffix :: "string \<Rightarrow> string \<Rightarrow> (string \<times> string) option" where
  "match_type_suffix pre [] = None"
| "match_type_suffix pre (c # cs) =
     (case match_type_suffix_at (c # cs) of
        Some kw \<Rightarrow> Some (pre, kw)
      | None \<Rightarrow> match_type_suffix (pre @ [c]) cs)"

definition TYPE_SUFFIX_REGEX :: "string \<Rightarrow> (string \<times> string) option" where
  "TYPE_SUFFIX_REGEX s = match_type_suffix [] s"

text \<open>
  \<^verbatim>\<open>ENUM_REGEX = /^[\w\s]+(\s*\|\s*[\w\s]+)+$/\<close>. White space belongs to the class
  \<^verbatim>\<open>[\w\s]\<close>, so the string matches when it is two or more non-empty texts of word and
  white-space characters separated by single bars.
\<close>

definition ENUM_REGEX :: "string \<Rightarrow> bool" where
  "ENUM_REGEX s =
     (2 \<le> length (split (CHR ''|'') s)
      \<and> list_all (\<lambda>p. p \<noteq> [] \<and> list_all (\<lambda>c. isWord c \<or> isSpace c) p) (split (CHR ''|'') s))"

text \<open>
  \<^verbatim>\<open>CRON_REGEX\<close>: five tokens, each \<^verbatim>\<open>*\<close> or a non-empty text over \<^verbatim>\<open>[\d,\-\/]\<close>, separated by
  white space.
\<close>

definition cron_token :: "string \<Rightarrow> bool" where
  "cron_token t =
     (t = ''*'' \<or> (t \<noteq> [] \<and>
        list_all (\<lambda>c. isDigit c \<or> c = CHR '','' \<or> c = CHR ''-'' \<or> c = CHR ''/'') t))"

primrec match_cron :: "nat \<Rightarrow> string \<Rightarrow> bool" where
  "match_cron 0 s = (cron_token s)"
| "match_cron (Suc n) s =
     (cron_token (takeWhile (\<lambda>c. \<not> isSpace c) s)
      \<and> dropWhile (\<lambda>c. \<not> isSpace c) s \<noteq> []
      \<and> match_cron n (dropWhile isSpace (dropWhile (\<lambda>c. \<not> isSpace c) s)))"

definition CRON_REGEX :: "string \<Rightarrow> bool" where
  "CRON_REGEX s = match_cron 4 s"

text \<open>
  \<^verbatim>\<open>MIGRATE_REGEX = /^migrate\.(\d+)$/\<close>, with \<^verbatim>\<open>parseInt(group 1, 10)\<close> applied to the
  digits. The result of \<^verbatim>\<open>parseInt\<close> is a number, a double: the integer the digits denote,
  rounded to 53 significant bits, to the nearest and to the even one of two neighbours as
  near, and \<^verbatim>\<open>Infinity\<close>, here \<open>None\<close>, from \<open>2 ^ 1024\<close> on.
\<close>

function bitLength :: "int \<Rightarrow> nat" where
  "bitLength n = (if n \<le> 0 then 0 else Suc (bitLength (n div 2)))"
  by pat_completeness auto
termination
  by (relation "measure nat") auto

definition roundToEven :: "int \<Rightarrow> nat \<Rightarrow> int" where
  "roundToEven n sh =
     (if 2 * (n mod 2 ^ sh) > 2 ^ sh \<or> (2 * (n mod 2 ^ sh) = 2 ^ sh \<and> (n div 2 ^ sh) mod 2 = 1)
      then (n div 2 ^ sh + 1) * 2 ^ sh
      else (n div 2 ^ sh) * 2 ^ sh)"

definition toDouble :: "int \<Rightarrow> int option" where
  "toDouble n =
     (if bitLength n \<le> 53 then Some n
      else if roundToEven n (bitLength n - 53) < 2 ^ 1024
        then Some (roundToEven n (bitLength n - 53))
      else None)"

definition digitsValue :: "string \<Rightarrow> int" where
  "digitsValue ds = foldl (\<lambda>acc c. 10 * acc + (int (of_char c) - 48)) 0 ds"

definition parseInt :: "string \<Rightarrow> int option" where
  "parseInt ds = toDouble (digitsValue ds)"

definition MIGRATE_REGEX :: "string \<Rightarrow> string option" where
  "MIGRATE_REGEX s =
     (if startsWith s ''migrate.'' \<and> drop 8 s \<noteq> [] \<and> list_all isDigit (drop 8 s)
      then Some (drop 8 s) else None)"

text \<open>\<^verbatim>\<open>/^on[A-Z]/\<close> and \<^verbatim>\<open>/^every[A-Z0-9]/\<close>.\<close>

definition isEventKey :: "string \<Rightarrow> bool" where
  "isEventKey k = (startsWith k ''on'' \<and> (case drop 2 k of [] \<Rightarrow> False | c # _ \<Rightarrow> isUpper c))"

definition isScheduleKey :: "string \<Rightarrow> bool" where
  "isScheduleKey k =
     (startsWith k ''every'' \<and> (case drop 5 k of [] \<Rightarrow> False | c # _ \<Rightarrow> isUpper c \<or> isDigit c))"

section \<open>The descriptor parser\<close>

subsection \<open>Cascades\<close>

text \<open>
  A filter condition is (field, operator, value). \<^verbatim>\<open>parseFilters\<close> turns the texts
  \<^verbatim>\<open>true\<close> and \<^verbatim>\<open>false\<close> into booleans; a text that \<^verbatim>\<open>Number\<close> reads as a number is
  stored by the source as that number, which is kept here as the text (\<open>FilterText\<close>):
  floating-point numbers are outside the model.
\<close>

datatype FilterValue = FilterBool bool | FilterText string

type_synonym FilterCondition = "string \<times> string \<times> FilterValue"

definition coerceFilterValue :: "string \<Rightarrow> FilterValue" where
  "coerceFilterValue rawValue =
     (if trim rawValue = ''true'' then FilterBool True
      else if trim rawValue = ''false'' then FilterBool False
      else FilterText (trim rawValue))"

definition parseFilters :: "string \<Rightarrow> FilterCondition list" where
  "parseFilters filterStr =
     List.map_filter
       (\<lambda>part. case FILTER_CONDITION_REGEX part of
                 None \<Rightarrow> None
               | Some (field, opr, rawValue) \<Rightarrow> Some (field, opr, coerceFilterValue rawValue))
       (map trim (split (CHR '','') filterStr))"

record CascadeDefinition =
  operator :: string
  targetType :: string
  predicate :: "string option"
  cascade_description :: string
  isArray :: bool
  isFuzzy :: bool
  isBidirectional :: bool
  routeParam :: "string option"
  filters :: "FilterCondition list option"
  generationPrompt :: "string option"
  isGenerative :: bool

text \<open>The local \<^verbatim>\<open>parseValue\<close> of \<^verbatim>\<open>parseCascade\<close>: the text after a route parameter
  \<^verbatim>\<open>:param\<close>, or the whole text.\<close>

definition parseValue :: "string \<Rightarrow> string" where
  "parseValue v = (case ROUTE_PARAM_REGEX v of Some (_, r) \<Rightarrow> r | None \<Rightarrow> v)"

definition parseCascade :: "string \<Rightarrow> string \<times> CascadeDefinition option" where
  "parseCascade v =
     (let routeMatch = ROUTE_PARAM_REGEX v
      in case CASCADE_REGEX (parseValue v) of
           None \<Rightarrow> (v, None)
         | Some (rawDescription, opr, targetPart) \<Rightarrow>
             let description = trim rawDescription;
                 filterMatch = FILTER_REGEX (trim targetPart);
                 targetClean = (case filterMatch of
                                  Some (before, _, after) \<Rightarrow> trim (before @ after)
                                | None \<Rightarrow> trim targetPart);
                 predicateMatch = TARGET_PREDICATE_REGEX targetClean;
                 targetType' = (case predicateMatch of Some (t, _) \<Rightarrow> t | None \<Rightarrow> targetClean);
                 predicate' = map_option snd predicateMatch;
                 finalDescription =
                   (if description \<noteq> [] then description
                    else targetType' @ (case predicate' of Some p \<Rightarrow> ''.'' @ p | None \<Rightarrow> []));
                 hasGenerationPrompt = (0 < length description)
             in (finalDescription,
                 Some \<lparr> operator = opr,
                        targetType = targetType',
                        predicate = predicate',
                        cascade_description = finalDescription,
                        isArray = False,
                        isFuzzy = str_includes opr ''~'',
                        isBidirectional = (str_includes opr ''<'' \<and> str_includes opr ''>''
                                            \<and> opr \<noteq> ''<-'' \<and> opr \<noteq> ''<~''),
                        routeParam = map_option fst routeMatch,
                        filters = map_option (\<lambda>(_, inner, _). parseFilters inner) filterMatch,
                        generationPrompt = (if hasGenerationPrompt then Some description else None),
                        isGenerative = hasGenerationPrompt \<rparr>))"

subsection \<open>Primitive types and enums\<close>

datatype FieldType = TString | TNumber | TDate | TBoolean | TEnum | TObject | TArray

definition parseFieldType :: "string \<Rightarrow> FieldType" where
  "parseFieldType v =
     (case TYPE_SUFFIX_REGEX v of
        Some (_, kw) \<Rightarrow>
          (if kw = ''number'' then TNumber else if kw = ''date'' then TDate else TBoolean)
      | None \<Rightarrow> if ENUM_REGEX v then TEnum else TString)"

definition parseEnumValues :: "string \<Rightarrow> string list option" where
  "parseEnumValues v = (if \<not> ENUM_REGEX v then None else Some (map trim (split (CHR ''|'') v)))"

definition stripTypeSuffix :: "string \<Rightarrow> string" where
  "stripTypeSuffix v = (case TYPE_SUFFIX_REGEX v of Some (before, _) \<Rightarrow> before | None \<Rightarrow> v)"

subsection \<open>The placeholder expression and its \<^verbatim>\<open>lastIndex\<close>\<close>

text \<open>
  \<^verbatim>\<open>VARIABLE_REGEX = /\{(\w+)\}/g\<close> is one global object with the flag \<^verbatim>\<open>g\<close>: it carries
  \<^verbatim>\<open>lastIndex\<close> from one call to the next. \<open>exec_variable pos s\<close> searches the text \<open>s\<close>
  that starts at index \<open>pos\<close> and returns group 1 and the index after the match.
  The parser's functions that use the expression take the current \<^verbatim>\<open>lastIndex\<close> where they
  read it and return the new one where they write it.
\<close>

fun exec_variable :: "nat \<Rightarrow> string \<Rightarrow> (string \<times> nat) option" where
  "exec_variable pos [] = None"
| "exec_variable pos (c # cs) =
     (if c = CHR ''{'' \<and> takeWhile isWord cs \<noteq> []
         \<and> startsWith (dropWhile isWord cs) ''}''
      then Some (takeWhile isWord cs, pos + length (takeWhile isWord cs) + 2)
      else exec_variable (Suc pos) cs)"

text \<open>\<^verbatim>\<open>isGenerativeString\<close> sets \<^verbatim>\<open>lastIndex\<close> to 0 and tests: the result and the new
  \<^verbatim>\<open>lastIndex\<close> (the end of the match, or 0 when there is none).\<close>

definition isGenerativeString :: "string \<Rightarrow> bool \<times> nat" where
  "isGenerativeString str =
     (case exec_variable 0 str of Some (_, e) \<Rightarrow> (True, e) | None \<Rightarrow> (False, 0))"

text \<open>
  \<^verbatim>\<open>extractVariables\<close> does not reset \<^verbatim>\<open>lastIndex\<close> before its loop: the first
  \<^verbatim>\<open>exec\<close> starts where the last successful test stopped. It leaves \<^verbatim>\<open>lastIndex = 0\<close>.
\<close>

function variables_from :: "string \<Rightarrow> string list" where
  "variables_from [] = []"
| "variables_from (c # cs) =
     (if c = CHR ''{'' \<and> takeWhile isWord cs \<noteq> []
         \<and> startsWith (dropWhile isWord cs) ''}''
      then takeWhile isWord cs # variables_from (drop (length (takeWhile isWord cs) + 1) cs)
      else variables_from cs)"
  by pat_completeness auto
termination
  by (relation "measure length") auto

definition extractVariables :: "string \<Rightarrow> nat \<Rightarrow> string list" where
  "extractVariables str lastIndex = variables_from (drop lastIndex str)"

text \<open>
  \<^verbatim>\<open>isGenerativeSchema(obj)\<close>, over \<^verbatim>\<open>Object.values(obj)\<close>; an array is an object whose values
  are its elements. The three checks of the loop body are \<open>schemaValue\<close>.
\<close>

fun schemaValue :: "jsval \<Rightarrow> nat \<Rightarrow> bool \<times> nat"
  and schemaValues :: "jsval list \<Rightarrow> nat \<Rightarrow> bool \<times> nat"
  and schemaEntries :: "(string \<times> jsval) list \<Rightarrow> nat \<Rightarrow> bool \<times> nat" where
  "schemaValue (VStr s) li = isGenerativeString s"
| "schemaValue (VArr xs) li =
     (case xs of
        [VStr s] \<Rightarrow>
          (case isGenerativeString s of
             (True, e) \<Rightarrow> (True, e)
           | (False, e) \<Rightarrow> schemaValues xs e)
      | _ \<Rightarrow> schemaValues xs li)"
| "schemaValue (VObj kvs) li = schemaEntries kvs li"
| "schemaValue VUndef li = (False, li)"
| "schemaValue VNull li = (False, li)"
| "schemaValue (VBool b) li = (False, li)"
| "schemaValue (VNum n) li = (False, li)"
| "schemaValue (VFun f) li = (False, li)"
| "schemaValues [] li = (False, li)"
| "schemaValues (v # vs) li =
     (case schemaValue v li of
        (True, e) \<Rightarrow> (True, e)
      | (False, e) \<Rightarrow> schemaValues vs e)"
| "schemaEntries [] li = (False, li)"
| "schemaEntries ((k, v) # kvs) li =
     (case schemaValue v li of
        (True, e) \<Rightarrow> (True, e)
      | (False, e) \<Rightarrow> schemaEntries kvs e)"

definition isObject :: "jsval \<Rightarrow> bool" where
  "isObject v = (case v of VObj _ \<Rightarrow> True | VArr _ \<Rightarrow> True | _ \<Rightarrow> False)"

definition isFunction :: "jsval \<Rightarrow> bool" where
  "isFunction v = (case v of VFun _ \<Rightarrow> True | _ \<Rightarrow> False)"

text \<open>\<^verbatim>\<open>key in v\<close> for an object or an array (own entries; an array has only its indices).\<close>

definition hasKey :: "string \<Rightarrow> jsval \<Rightarrow> bool" where
  "hasKey k v = (case v of VObj kvs \<Rightarrow> k \<in> set (map fst kvs) | _ \<Rightarrow> False)"

definition isGenerativeSchema :: "jsval \<Rightarrow> nat \<Rightarrow> bool \<times> nat" where
  "isGenerativeSchema v li =
     (case v of VObj kvs \<Rightarrow> schemaEntries kvs li | VArr xs \<Rightarrow> schemaValues xs li | _ \<Rightarrow> (False, li))"

subsection \<open>Fields\<close>

datatype ParsedField =
  ParsedField (name: string) (description: string) (ftype: FieldType)
    (enumValues: "string list option") (cascade: "CascadeDefinition option")
    (nested: "(string \<times> ParsedField) list option") (arrayItem: "ParsedField option")

text \<open>The decimal text of a number: the keys of an array's entries, and numbers in JSON.\<close>

function show_nat :: "nat \<Rightarrow> string" where
  "show_nat n =
     (if n < 10 then [char_of (48 + n)] else show_nat (n div 10) @ [char_of (48 + n mod 10)])"
  by pat_completeness auto
termination
  by (relation "measure id") auto

definition show_int :: "int \<Rightarrow> string" where
  "show_int i = (if i < 0 then ''-'' @ show_nat (nat (- i)) else show_nat (nat i))"

definition parseStringField :: "string \<Rightarrow> string \<Rightarrow> ParsedField" where
  "parseStringField nm v =
     (case parseCascade v of
        (description', cascade') \<Rightarrow>
          ParsedField nm (trim (stripTypeSuffix description')) (parseFieldType description')
            (parseEnumValues description') cascade' None None)"

definition parseArrayStringField :: "string \<Rightarrow> string \<Rightarrow> ParsedField" where
  "parseArrayStringField nm item =
     (case parseCascade item of
        (description', cascade') \<Rightarrow>
          ParsedField nm description' TArray None
            (map_option (\<lambda>c. c\<lparr>isArray := True\<rparr>) cascade') None
            (Some (ParsedField ''item'' description' (parseFieldType description')
                     (parseEnumValues description') None None None)))"

definition fallbackField :: "string \<Rightarrow> ParsedField" where
  "fallbackField nm = ParsedField nm nm TString None None None None"

definition objectField :: "string \<Rightarrow> (string \<times> ParsedField) list \<Rightarrow> ParsedField" where
  "objectField nm fs = ParsedField nm nm TObject None None (Some fs) None"

definition arrayObjectField :: "string \<Rightarrow> (string \<times> ParsedField) list \<Rightarrow> ParsedField" where
  "arrayObjectField nm fs =
     ParsedField nm (''Array of '' @ nm) TArray None None None
       (Some (ParsedField ''item'' (nm @ '' item'') TObject None None (Some fs) None))"

text \<open>
  The tests at the head of the loop of \<^verbatim>\<open>parseFields\<close> that skip an entry, in the source's
  order; the result is whether the entry is skipped and the new \<^verbatim>\<open>lastIndex\<close>.
\<close>

definition skipField :: "string \<Rightarrow> jsval \<Rightarrow> nat \<Rightarrow> bool \<times> nat" where
  "skipField k v li =
     (if startsWith k ''$'' \<or> isEventKey k \<or> isScheduleKey k \<or> CRON_REGEX k
         \<or> MIGRATE_REGEX k \<noteq> None \<or> isFunction v \<or> (isObject v \<and> hasKey ''mdx'' v)
      then (True, li)
      else (case v of
              VStr s \<Rightarrow>
                (case isGenerativeString s of (g, e) \<Rightarrow> (g \<and> CASCADE_REGEX s = None, e))
            | _ \<Rightarrow> if isObject v then isGenerativeSchema v li else (False, li)))"

text \<open>
  \<^verbatim>\<open>parseField\<close> and \<^verbatim>\<open>parseFields\<close>. \<open>parseFieldsArr i xs\<close> is \<^verbatim>\<open>parseFields\<close> on an
  array whose remaining elements \<open>xs\<close> start at index \<open>i\<close>: the keys are the indices.
\<close>

fun parseField :: "string \<Rightarrow> jsval \<Rightarrow> nat \<Rightarrow> ParsedField \<times> nat"
  and parseFields :: "(string \<times> jsval) list \<Rightarrow> nat \<Rightarrow> (string \<times> ParsedField) list \<times> nat"
  and parseFieldsArr :: "nat \<Rightarrow> jsval list \<Rightarrow> nat \<Rightarrow> (string \<times> ParsedField) list \<times> nat"
  where
  "parseField nm (VStr s) li = (parseStringField nm s, li)"
| "parseField nm (VArr [VStr item]) li = (parseArrayStringField nm item, li)"
| "parseField nm (VArr [VObj kvs]) li =
     (case parseFields kvs li of (fs, e) \<Rightarrow> (arrayObjectField nm fs, e))"
| "parseField nm (VArr [VArr ys]) li =
     (case parseFieldsArr 0 ys li of (fs, e) \<Rightarrow> (arrayObjectField nm fs, e))"
| "parseField nm (VArr xs) li =
     (case parseFieldsArr 0 xs li of (fs, e) \<Rightarrow> (objectField nm fs, e))"
| "parseField nm (VObj kvs) li =
     (if ''mdx'' \<in> set (map fst kvs) then (fallbackField nm, li)
      else (case parseFields kvs li of (fs, e) \<Rightarrow> (objectField nm fs, e)))"
| "parseField nm VUndef li = (fallbackField nm, li)"
| "parseField nm VNull li = (fallbackField nm, li)"
| "parseField nm (VBool b) li = (fallbackField nm, li)"
| "parseField nm (VNum n) li = (fallbackField nm, li)"
| "parseField nm (VFun f) li = (fallbackField nm, li)"
| "parseFields [] li = ([], li)"
| "parseFields ((k, v) # kvs) li =
     (case skipField k v li of
        (True, e) \<Rightarrow> parseFields kvs e
      | (False, e) \<Rightarrow>
          (case parseField k v e of
             (f, e') \<Rightarrow> (case parseFields kvs e' of (fs, e'') \<Rightarrow> ((k, f) # fs, e''))))"
| "parseFieldsArr i [] li = ([], li)"
| "parseFieldsArr i (v # vs) li =
     (case skipField (show_nat i) v li of
        (True, e) \<Rightarrow> parseFieldsArr (Suc i) vs e
      | (False, e) \<Rightarrow>
          (case parseField (show_nat i) v e of
             (f, e') \<Rightarrow>
               (case parseFieldsArr (Suc i) vs e' of (fs, e'') \<Rightarrow> ((show_nat i, f) # fs, e''))))"

subsection \<open>\<^verbatim>\<open>JSON.stringify\<close>\<close>

definition join :: "string \<Rightarrow> string list \<Rightarrow> string" where
  "join sep xs = (case xs of [] \<Rightarrow> [] | y # ys \<Rightarrow> y @ concat (map (\<lambda>x. sep @ x) ys))"

definition hexDigit :: "nat \<Rightarrow> char" where
  "hexDigit n = (if n < 10 then char_of (48 + n) else char_of (87 + n))"

definition jsonEscape :: "char \<Rightarrow> string" where
  "jsonEscape c =
     (if c = CHR 0x22 then [CHR 0x5C, CHR 0x22]
      else if c = CHR 0x5C then [CHR 0x5C, CHR 0x5C]
      else if c = CHR 0x08 then [CHR 0x5C, CHR ''b'']
      else if c = CHR 0x0C then [CHR 0x5C, CHR ''f'']
      else if c = CHR 0x0A then [CHR 0x5C, CHR ''n'']
      else if c = CHR 0x0D then [CHR 0x5C, CHR ''r'']
      else if c = CHR 0x09 then [CHR 0x5C, CHR ''t'']
      else if (of_char c :: nat) < 32
        then [CHR 0x5C, CHR ''u'', CHR ''0'', CHR ''0'',
              hexDigit (of_char c div 16), hexDigit (of_char c mod 16)]
      else [c])"

definition jsonString :: "string \<Rightarrow> string" where
  "jsonString s = [CHR 0x22] @ concat (map jsonEscape s) @ [CHR 0x22]"

text \<open>
  \<open>jsonValue v\<close> is \<open>None\<close> where \<^verbatim>\<open>JSON.stringify\<close> gives \<^verbatim>\<open>undefined\<close>: such an entry of
  an object is left out, and such an element of an array is written \<^verbatim>\<open>null\<close>.
\<close>

fun jsonValue :: "jsval \<Rightarrow> string option"
  and jsonElements :: "jsval list \<Rightarrow> string list"
  and jsonMembers :: "(string \<times> jsval) list \<Rightarrow> string list" where
  "jsonValue VUndef = None"
| "jsonValue (VFun f) = None"
| "jsonValue VNull = Some ''null''"
| "jsonValue (VBool b) = Some (if b then ''true'' else ''false'')"
| "jsonValue (VNum n) = Some (show_int n)"
| "jsonValue (VStr s) = Some (jsonString s)"
| "jsonValue (VArr xs) = Some (''['' @ join '','' (jsonElements xs) @ '']'')"
| "jsonValue (VObj kvs) = Some (''{'' @ join '','' (jsonMembers kvs) @ ''}'')"
| "jsonElements [] = []"
| "jsonElements (v # vs) =
     (case jsonValue v of None \<Rightarrow> ''null'' | Some t \<Rightarrow> t) # jsonElements vs"
| "jsonMembers [] = []"
| "jsonMembers ((k, v) # kvs) =
     (case jsonValue v of
        None \<Rightarrow> jsonMembers kvs
      | Some t \<Rightarrow> (jsonString k @ '':'' @ t) # jsonMembers kvs)"

definition JSON_stringify :: "jsval \<Rightarrow> string" where
  "JSON_stringify v = (case jsonValue v of None \<Rightarrow> ''undefined'' | Some t \<Rightarrow> t)"

subsection \<open>Definitions\<close>

text \<open>
  \<^verbatim>\<open>ParsedDefinition\<close>. The fields \<^verbatim>\<open>$type\<close>, \<^verbatim>\<open>$id\<close>, \<^verbatim>\<open>$version\<close>, \<^verbatim>\<open>$context\<close> and
  \<^verbatim>\<open>$extends\<close> are written \<open>dollar_type\<close> and so on, and \<^verbatim>\<open>fields\<close> and \<^verbatim>\<open>functions\<close> are
  written with a prime. Every dictionary is the list of its
  entries, and an assignment \<^verbatim>\<open>d[k] = v\<close> is \<open>AList.update k v d\<close>. A registered function is
  the JavaScript value the source stores: a function, or the object
  \<^verbatim>\<open>{ prompt, schema, model, variables }\<close> of a generative function. Handlers are stored by
  the number of their function.
\<close>

record ParsedDefinition =
  dollar_type :: string
  dollar_id :: "string option"
  dollar_version :: int
  dollar_context :: "string option"
  dollar_extends :: "string option"
  fields' :: "(string \<times> ParsedField) list"
  cascades :: "(string \<times> CascadeDefinition) list"
  functions' :: "(string \<times> jsval) list"
  events :: "(string \<times> nat) list"
  schedules :: "(string \<times> nat) list"
  crons :: "(string \<times> nat) list"
  migrations :: "(int \<times> nat) list"

text \<open>\<^verbatim>\<open>v[k]\<close> on an object: the own entry, or \<^verbatim>\<open>undefined\<close>.\<close>

definition getProp :: "jsval \<Rightarrow> string \<Rightarrow> jsval" where
  "getProp v k =
     (case v of
        VObj kvs \<Rightarrow> (case map_of kvs k of Some x \<Rightarrow> x | None \<Rightarrow> VUndef)
      | _ \<Rightarrow> VUndef)"

definition asString :: "jsval \<Rightarrow> string option" where
  "asString v = (case v of VStr s \<Rightarrow> Some s | _ \<Rightarrow> None)"

text \<open>
  The definition's type declares \<^verbatim>\<open>$type\<close> a string and \<^verbatim>\<open>$version\<close> a number; the
  initial record reads them so. \<^verbatim>\<open>$version\<close> is \<^verbatim>\<open>def.$version || 1\<close>.
\<close>

definition initialParsed :: "(string \<times> jsval) list \<Rightarrow> ParsedDefinition" where
  "initialParsed def =
     \<lparr> dollar_type = (case getProp (VObj def) ''$type'' of VStr s \<Rightarrow> s | _ \<Rightarrow> ''undefined''),
       dollar_id = asString (getProp (VObj def) ''$id''),
       dollar_version = (case getProp (VObj def) ''$version'' of
                           VNum n \<Rightarrow> if n = 0 then 1 else n
                         | _ \<Rightarrow> 1),
       dollar_context = asString (getProp (VObj def) ''$context''),
       dollar_extends = asString (getProp (VObj def) ''$extends''),
       fields' = [], cascades = [], functions' = [], events = [], schedules = [], crons = [],
       migrations = [] \<rparr>"

definition addField :: "string \<Rightarrow> ParsedField \<Rightarrow> ParsedDefinition \<Rightarrow> ParsedDefinition" where
  "addField k f pd =
     (case cascade f of
        None \<Rightarrow> pd\<lparr>fields' := AList.update k f (fields' pd)\<rparr>
      | Some c \<Rightarrow> pd\<lparr>fields' := AList.update k f (fields' pd),
                      cascades := AList.update k c (cascades pd)\<rparr>)"

definition legacyFunction :: "jsval \<Rightarrow> nat \<Rightarrow> jsval" where
  "legacyFunction legacyDef li =
     VObj [(''prompt'', getProp legacyDef ''mdx''),
           (''schema'', getProp legacyDef ''schema''),
           (''model'', getProp legacyDef ''model''),
           (''variables'',
              VArr (map VStr (case getProp legacyDef ''mdx'' of
                                VStr m \<Rightarrow> extractVariables m li
                              | _ \<Rightarrow> [])))]"

definition stringFunction :: "string \<Rightarrow> nat \<Rightarrow> jsval" where
  "stringFunction v li =
     VObj [(''prompt'', VStr v), (''variables'', VArr (map VStr (extractVariables v li)))]"

definition schemaFunction :: "string \<Rightarrow> jsval \<Rightarrow> nat \<Rightarrow> jsval" where
  "schemaFunction k v li =
     VObj [(''prompt'',
              VStr (''Generate '' @ k @ '' for context with: ''
                    @ join '', '' (map (\<lambda>x. ''{'' @ x @ ''}'')
                                     (extractVariables (JSON_stringify v) li)))),
           (''schema'', v),
           (''variables'', VArr (map VStr (extractVariables (JSON_stringify v) li)))]"

text \<open>
  The body of the loop of \<^verbatim>\<open>parseDefinition\<close> for one entry, on the definition parsed so far
  and the current \<^verbatim>\<open>lastIndex\<close>. The branches are the source's, in its order; the last three
  are \<open>parseValueEntry\<close>. A migration whose version \<^verbatim>\<open>parseInt\<close> gives as \<^verbatim>\<open>Infinity\<close> is
  registered by the source under a key that \<^verbatim>\<open>_checkMigrations\<close> never selects
  (\<^verbatim>\<open>v <= this.$version\<close> fails for it); the table of the model, whose keys are integers,
  leaves it out.
\<close>

definition parseValueEntry ::
  "string \<Rightarrow> jsval \<Rightarrow> ParsedDefinition \<times> nat \<Rightarrow> ParsedDefinition \<times> nat" where
  "parseValueEntry k v st =
     (case st of (pd, li) \<Rightarrow>
        (case v of
           VArr [VStr item] \<Rightarrow>
             (case parseField k v li of (f, e) \<Rightarrow> (addField k f pd, e))
         | VObj kvs \<Rightarrow>
             (case isGenerativeSchema v li of
                (True, e) \<Rightarrow>
                  (pd\<lparr>functions' := AList.update k (schemaFunction k v e) (functions' pd)\<rparr>, 0)
              | (False, e) \<Rightarrow>
                  (case parseField k v e of (f, e') \<Rightarrow> (addField k f pd, e')))
         | _ \<Rightarrow> (case parseField k v li of (f, e) \<Rightarrow> (addField k f pd, e))))"

definition parseEntry ::
  "string \<Rightarrow> jsval \<Rightarrow> ParsedDefinition \<times> nat \<Rightarrow> ParsedDefinition \<times> nat" where
  "parseEntry k v st =
     (case st of (pd, li) \<Rightarrow>
        if startsWith k ''$'' then (pd, li)
        else (case v of
                VFun f \<Rightarrow>
                  (case MIGRATE_REGEX k of
                     Some digits \<Rightarrow>
                       (case parseInt digits of
                          Some version \<Rightarrow>
                            (pd\<lparr>migrations := AList.update version f (migrations pd)\<rparr>, li)
                        | None \<Rightarrow> (pd, li))
                   | None \<Rightarrow>
                       if isEventKey k then (pd\<lparr>events := AList.update k f (events pd)\<rparr>, li)
                       else if isScheduleKey k
                         then (pd\<lparr>schedules := AList.update k f (schedules pd)\<rparr>, li)
                       else if CRON_REGEX k then (pd\<lparr>crons := AList.update k f (crons pd)\<rparr>, li)
                       else (pd\<lparr>functions' := AList.update k (VFun f) (functions' pd)\<rparr>, li))
              | VStr s \<Rightarrow>
                  (case isGenerativeString s of
                     (g, e) \<Rightarrow>
                       if g \<and> CASCADE_REGEX s = None
                       then (pd\<lparr>functions' := AList.update k (stringFunction s e) (functions' pd)\<rparr>,
                             0)
                       else (case parseField k v e of (f, e') \<Rightarrow> (addField k f pd, e')))
              | _ \<Rightarrow>
                  if isObject v \<and> hasKey ''mdx'' v
                  then (pd\<lparr>functions' := AList.update k (legacyFunction v li) (functions' pd)\<rparr>, 0)
                  else parseValueEntry k v (pd, li)))"

primrec parseEntries ::
  "(string \<times> jsval) list \<Rightarrow> ParsedDefinition \<times> nat \<Rightarrow> ParsedDefinition \<times> nat" where
  "parseEntries [] st = st"
| "parseEntries (kv # kvs) st = parseEntries kvs (parseEntry (fst kv) (snd kv) st)"

definition parseDefinition :: "(string \<times> jsval) list \<Rightarrow> nat \<Rightarrow> ParsedDefinition \<times> nat" where
  "parseDefinition def li = parseEntries def (initialParsed def, li)"

subsection \<open>The inference rules of \<^verbatim>\<open>field-types.ts\<close>\<close>



definition FieldTypeRules_isCompute :: "jsval \<Rightarrow> bool" where
  "FieldTypeRules_isCompute v = isFunction v"


definition FieldTypeRules_isExplicit :: "jsval \<Rightarrow> bool" where
  "FieldTypeRules_isExplicit v =
     (isObject v \<and> (hasKey ''$input'' v \<or> hasKey ''$generate'' v \<or> hasKey ''$compute'' v
                     \<or> hasKey ''$sync'' v \<or> hasKey ''$aggregate'' v))"

section \<open>The runtime: \<^verbatim>\<open>DigitalObjectDefinition\<close>\<close>

text \<open>
  The storage collaborator is a key-value store; its contents are a map from keys to values.
  A function of the definition is known by its number. What it does is given by an
  environment: \<open>apply_function\<close> is the call \<^verbatim>\<open>fn(...args)\<close> of a function that is given no
  context; \<open>run_handler\<close> is the call of a migration or an event handler, which receives the
  context \<^verbatim>\<open>$\<close> of the bound definition after its other arguments and can change the contents
  of the bound storage through it: it maps the contents before the call to the error it
  throws, if any, and the contents it leaves. \<open>source_text\<close> is \<^verbatim>\<open>fn.toString()\<close>.
\<close>

datatype error = Error string | TypeError string

datatype 'a outcome = Returned 'a | Threw error

type_synonym store = "string \<Rightarrow> jsval option"

record environment =
  apply_function :: "nat \<Rightarrow> jsval list \<Rightarrow> jsval outcome"
  run_handler :: "nat \<Rightarrow> jsval list \<Rightarrow> store \<Rightarrow> error option \<times> store"
  source_text :: "nat \<Rightarrow> string"

text \<open>
  The two optional members \<^verbatim>\<open>_storage\<close> and \<^verbatim>\<open>_context\<close> of the class: neither is set
  (\<open>Unbound\<close>); the constructor was given a storage and \<^verbatim>\<open>bind\<close> has not run (\<open>Attached\<close>);
  \<^verbatim>\<open>bind\<close> has set both (\<open>Bound\<close>). No code sets \<^verbatim>\<open>_context\<close> without \<^verbatim>\<open>_storage\<close>, and
  none unsets either.
\<close>

datatype binding = Unbound | Attached store | Bound store

record DigitalObjectDefinition =
  raw :: "(string \<times> jsval) list"
  parsed :: ParsedDefinition
  binding :: binding
  memoryInstances :: store

text \<open>What the runtime calls, in the order of the calls: a migration with its version, or an
  event handler with the name of its event; each with the number of the function.\<close>

datatype invocation = MigrationCall int nat | HandlerCall string nat

definition truthy :: "jsval \<Rightarrow> bool" where
  "truthy v =
     (case v of
        VUndef \<Rightarrow> False
      | VNull \<Rightarrow> False
      | VBool b \<Rightarrow> b
      | VNum n \<Rightarrow> n \<noteq> 0
      | VStr s \<Rightarrow> s \<noteq> []
      | _ \<Rightarrow> True)"

text \<open>The constructor, with the \<^verbatim>\<open>lastIndex\<close> that \<^verbatim>\<open>parseDefinition\<close> reads and leaves.\<close>

definition new_DigitalObjectDefinition ::
  "(string \<times> jsval) list \<Rightarrow> store option \<Rightarrow> nat \<Rightarrow> DigitalObjectDefinition \<times> nat" where
  "new_DigitalObjectDefinition def storage li =
     (case parseDefinition def li of
        (pd, e) \<Rightarrow>
          (\<lparr> raw = def, parsed = pd,
              binding = (case storage of None \<Rightarrow> Unbound | Some s \<Rightarrow> Attached s),
              memoryInstances = Map.empty \<rparr>, e))"

definition toJSON :: "environment \<Rightarrow> DigitalObjectDefinition \<Rightarrow> jsval" where
  "toJSON env d =
     VObj (foldl (\<lambda>json kv.
                    if startsWith (fst kv) ''$'' then json
                    else AList.update (fst kv)
                           (case snd kv of VFun f \<Rightarrow> VStr (source_text env f) | v \<Rightarrow> v) json)
             ([(''$type'', VStr (dollar_type (parsed d))),
               (''$version'', VNum (dollar_version (parsed d)))]
              @ (case dollar_id (parsed d) of
                   Some i \<Rightarrow> if i \<noteq> [] then [(''$id'', VStr i)] else []
                 | None \<Rightarrow> [])
              @ (case dollar_context (parsed d) of
                   Some c \<Rightarrow> if c \<noteq> [] then [(''$context'', VStr c)] else []
                 | None \<Rightarrow> []))
             (raw d))"

text \<open>
  \<^verbatim>\<open>this._storage.get<number>('$version') || 0\<close>. The source types the slot as a number, and
  so does the model: \<open>None\<close> stands for a truthy stored value outside that type, such as a
  text or an object, whose conversions in the two comparisons of \<^verbatim>\<open>_checkMigrations\<close> the
  model does not follow. Every statement about \<^verbatim>\<open>bind\<close> below is about a storage whose slot
  holds a number or nothing.
\<close>

definition storedVersion :: "store \<Rightarrow> int option" where
  "storedVersion s =
     (case s ''$version'' of
        None \<Rightarrow> Some 0
      | Some v \<Rightarrow> if \<not> truthy v then Some 0 else (case v of VNum n \<Rightarrow> Some n | _ \<Rightarrow> None))"

text \<open>The loop of \<^verbatim>\<open>_checkMigrations\<close> over the sorted versions: a migration that throws
  ends it.\<close>

fun runMigrations ::
  "environment \<Rightarrow> (int \<times> nat) list \<Rightarrow> int list \<Rightarrow> store
     \<Rightarrow> invocation list \<times> error option \<times> store" where
  "runMigrations env migs [] s = ([], None, s)"
| "runMigrations env migs (v # vs) s =
     (case map_of migs v of
        None \<Rightarrow> runMigrations env migs vs s
      | Some f \<Rightarrow>
          (case run_handler env f [] s of
             (Some e, s') \<Rightarrow> ([MigrationCall v f], Some e, s')
           | (None, s') \<Rightarrow>
               (case runMigrations env migs vs s' of
                  (tr, r, s'') \<Rightarrow> (MigrationCall v f # tr, r, s''))))"

definition migrationVersions :: "ParsedDefinition \<Rightarrow> int \<Rightarrow> int list" where
  "migrationVersions pd stored =
     sort (filter (\<lambda>v. v > stored \<and> v \<le> dollar_version pd) (map fst (migrations pd)))"

definition checkMigrations ::
  "environment \<Rightarrow> DigitalObjectDefinition
     \<Rightarrow> invocation list \<times> error option \<times> DigitalObjectDefinition" where
  "checkMigrations env d =
     (case binding d of
        Bound s \<Rightarrow>
          (case storedVersion s of
             None \<Rightarrow> ([], None, d)
           | Some stored \<Rightarrow>
               if stored < dollar_version (parsed d) then
                 (case runMigrations env (migrations (parsed d))
                         (migrationVersions (parsed d) stored) s of
                    (tr, Some e, s') \<Rightarrow> (tr, Some e, d\<lparr>binding := Bound s'\<rparr>)
                  | (tr, None, s') \<Rightarrow>
                      (tr, None,
                       d\<lparr>binding := Bound (s'(''$version'' \<mapsto> VNum (dollar_version (parsed d))))\<rparr>))
               else ([], None, d))
      | _ \<Rightarrow> ([], None, d))"

definition bind ::
  "environment \<Rightarrow> DigitalObjectDefinition \<Rightarrow> store
     \<Rightarrow> invocation list \<times> unit outcome \<times> DigitalObjectDefinition" where
  "bind env d storage =
     (case checkMigrations env (d\<lparr>binding := Bound storage\<rparr>) of
        (tr, Some e, d') \<Rightarrow> (tr, Threw e, d')
      | (tr, None, d') \<Rightarrow>
          (tr, Returned (),
           (case binding d' of
              Bound s \<Rightarrow>
                d'\<lparr>binding := Bound (s(''$'' \<mapsto> toJSON env d',
                                         ''$version'' \<mapsto> VNum (dollar_version (parsed d'))))\<rparr>
            | _ \<Rightarrow> d')))"

text \<open>The contents the instance operations read and write: the storage when there is one,
  the in-memory map otherwise.\<close>

definition instanceStore :: "DigitalObjectDefinition \<Rightarrow> store" where
  "instanceStore d =
     (case binding d of Unbound \<Rightarrow> memoryInstances d | Attached s \<Rightarrow> s | Bound s \<Rightarrow> s)"

definition setInstanceStore :: "store \<Rightarrow> DigitalObjectDefinition \<Rightarrow> DigitalObjectDefinition" where
  "setInstanceStore s d =
     (case binding d of
        Unbound \<Rightarrow> d\<lparr>memoryInstances := s\<rparr>
      | Attached _ \<Rightarrow> d\<lparr>binding := Attached s\<rparr>
      | Bound _ \<Rightarrow> d\<lparr>binding := Bound s\<rparr>)"

definition DOInstance :: "string \<Rightarrow> string \<Rightarrow> jsval \<Rightarrow> jsval \<Rightarrow> jsval" where
  "DOInstance i t v dat = VObj [(''$id'', VStr i), (''$type'', VStr t), (''$version'', v), (''data'', dat)]"

text \<open>\<^verbatim>\<open>get(id)\<close>: \<open>None\<close> is \<^verbatim>\<open>null\<close>.\<close>

definition get :: "DigitalObjectDefinition \<Rightarrow> string \<Rightarrow> jsval option" where
  "get d i =
     (case instanceStore d i of
        None \<Rightarrow> None
      | Some dat \<Rightarrow>
          if \<not> truthy dat then None
          else Some (DOInstance i (dollar_type (parsed d))
                       (if truthy (getProp dat ''$version'') then getProp dat ''$version''
                        else VNum (dollar_version (parsed d)))
                       dat))"

text \<open>
  An event handler is called when it is registered under the event's name and the context
  exists: \<^verbatim>\<open>if (this._parsed.events[eventName] && this._context)\<close>.
\<close>

definition fire ::
  "environment \<Rightarrow> string \<Rightarrow> jsval \<Rightarrow> DigitalObjectDefinition
     \<Rightarrow> invocation list \<times> error option \<times> DigitalObjectDefinition" where
  "fire env eventName payload d =
     (case map_of (events (parsed d)) eventName of
        None \<Rightarrow> ([], None, d)
      | Some f \<Rightarrow>
          (case binding d of
             Bound s \<Rightarrow>
               (case run_handler env f [payload] s of
                  (r, s') \<Rightarrow> ([HandlerCall eventName f], r, d\<lparr>binding := Bound s'\<rparr>))
           | _ \<Rightarrow> ([], None, d)))"

definition newInstance :: "DigitalObjectDefinition \<Rightarrow> string \<Rightarrow> (string \<times> jsval) list \<Rightarrow> jsval" where
  "newInstance d i dat =
     DOInstance i (dollar_type (parsed d)) (VNum (dollar_version (parsed d)))
       (VObj (AList.update ''$version'' (VNum (dollar_version (parsed d))) dat))"

definition create ::
  "environment \<Rightarrow> DigitalObjectDefinition \<Rightarrow> string \<Rightarrow> (string \<times> jsval) list
     \<Rightarrow> invocation list \<times> jsval outcome \<times> DigitalObjectDefinition" where
  "create env d i dat =
     (case fire env (''on'' @ dollar_type (parsed d) @ ''Created'') (newInstance d i dat)
             (setInstanceStore ((instanceStore d)(i \<mapsto> getProp (newInstance d i dat) ''data'')) d) of
        (tr, Some e, d') \<Rightarrow> (tr, Threw e, d')
      | (tr, None, d') \<Rightarrow> (tr, Returned (newInstance d i dat), d'))"

definition put ::
  "environment \<Rightarrow> DigitalObjectDefinition \<Rightarrow> string \<Rightarrow> (string \<times> jsval) list
     \<Rightarrow> invocation list \<times> jsval outcome \<times> DigitalObjectDefinition" where
  "put env d i dat =
     (case fire env (''on'' @ dollar_type (parsed d) @ ''Updated'')
             (VObj [(''previous'', (case get d i of None \<Rightarrow> VNull | Some x \<Rightarrow> x)),
                    (''current'', newInstance d i dat)])
             (setInstanceStore ((instanceStore d)(i \<mapsto> getProp (newInstance d i dat) ''data'')) d) of
        (tr, Some e, d') \<Rightarrow> (tr, Threw e, d')
      | (tr, None, d') \<Rightarrow> (tr, Returned (newInstance d i dat), d'))"

definition delete ::
  "environment \<Rightarrow> DigitalObjectDefinition \<Rightarrow> string
     \<Rightarrow> invocation list \<times> bool outcome \<times> DigitalObjectDefinition" where
  "delete env d i =
     (case get d i of
        None \<Rightarrow> ([], Returned False, d)
      | Some inst \<Rightarrow>
          (case fire env (''on'' @ dollar_type (parsed d) @ ''Deleted'') inst
                  (setInstanceStore ((instanceStore d)(i := None)) d) of
             (tr, Some e, d') \<Rightarrow> (tr, Threw e, d')
           | (tr, None, d') \<Rightarrow> (tr, Returned True, d')))"

text \<open>
  \<^verbatim>\<open>call(name, ...args)\<close>. The lookup \<^verbatim>\<open>this._parsed.functions[name]\<close> is modelled on the
  entries the parser stored: the names an object inherits (\<^verbatim>\<open>toString\<close>, \<^verbatim>\<open>constructor\<close>, ...),
  which the lookup of the source also finds, are left out. The operator \<^verbatim>\<open>in\<close> throws a
  TypeError on a primitive value.
\<close>

definition notFound :: "string \<Rightarrow> error" where
  "notFound nm = Error (''Function '' @ [CHR 0x27] @ nm @ [CHR 0x27] @ '' not found'')"

definition unknownFunctionType :: "string \<Rightarrow> error" where
  "unknownFunctionType nm = Error (''Unknown function type for '' @ [CHR 0x27] @ nm @ [CHR 0x27])"

definition call ::
  "environment \<Rightarrow> DigitalObjectDefinition \<Rightarrow> string \<Rightarrow> jsval list \<Rightarrow> jsval outcome" where
  "call env d nm args =
     (case map_of (functions' (parsed d)) nm of
        None \<Rightarrow> Threw (notFound nm)
      | Some fn \<Rightarrow>
          if \<not> truthy fn then Threw (notFound nm)
          else (case fn of
                  VFun f \<Rightarrow> apply_function env f args
                | VObj kvs \<Rightarrow>
                    if hasKey ''mdx'' fn
                    then Returned (VObj [(''_generate'', VBool True),
                                         (''mdx'', getProp fn ''mdx''),
                                         (''args'', VArr args),
                                         (''schema'', getProp fn ''schema''),
                                         (''model'', getProp fn ''model'')])
                    else Threw (unknownFunctionType nm)
                | VArr xs \<Rightarrow> Threw (unknownFunctionType nm)
                | _ \<Rightarrow> Threw (TypeError ''Cannot use the in operator on a primitive value'')))"

section \<open>The noun factory and its serialisation\<close>

text \<open>
  The values of a noun definition (\<^verbatim>\<open>Noun\<close>, \<^verbatim>\<open>unnamed/part_022\<close>). \<open>NProxy segments\<close> is the
  proxy \<^verbatim>\<open>path(segments)\<close> of \<^verbatim>\<open>create$\<close>, whose \<^verbatim>\<open>typeof\<close> is \<^verbatim>\<open>function\<close>; \<open>NBuiltin\<close> is a
  function the proxy hands out (\<^verbatim>\<open>where\<close>, \<^verbatim>\<open>sum\<close>, ...); \<open>NNoun\<close> is a noun, a function that
  carries the properties \<^verbatim>\<open>Noun\<close> attaches to it; \<open>NFun\<close> is any other function. JavaScript's
  conversion of a value that is no string to a string is a parameter \<open>ts\<close> of the functions
  that need it.
\<close>

datatype nval =
    NUndef
  | NNull
  | NBool bool
  | NNum int
  | NStr string
  | NFun nat
  | NBuiltin string
  | NProxy "string list"
  | NNoun "(string \<times> nval) list"
  | NArr "nval list"
  | NObj "(string \<times> nval) list"

definition EXTERNAL_SOURCES :: "string list" where
  "EXTERNAL_SOURCES =
     [''Stripe'', ''Github'', ''Google'', ''Vercel'', ''NPM'', ''DNS'', ''WHOIS'',
      ''Slack'', ''Discord'', ''Linear'', ''Notion'', ''Airtable'']"

text \<open>The \<^verbatim>\<open>get\<close> trap of the proxy \<^verbatim>\<open>path(segments)\<close>.\<close>

definition proxyGet :: "string list \<Rightarrow> string \<Rightarrow> nval" where
  "proxyGet segments prop =
     (if prop = ''$'' then NObj [(''path'', NArr (map NStr segments))]
      else if prop = ''then'' then NUndef
      else if prop = ''where'' then NBuiltin ''where''
      else if segments = [] \<and> List.member [''sum'', ''count'', ''avg'', ''min'', ''max'', ''fuzzy''] prop
        then NBuiltin prop
      else NProxy (segments @ [prop]))"

text \<open>\<^verbatim>\<open>v?.k\<close>: an own entry of an object or of a noun, the trap of a proxy, \<^verbatim>\<open>undefined\<close>
  otherwise.\<close>

definition nprop :: "nval \<Rightarrow> string \<Rightarrow> nval" where
  "nprop v k =
     (case v of
        NObj kvs \<Rightarrow> (case map_of kvs k of Some x \<Rightarrow> x | None \<Rightarrow> NUndef)
      | NNoun kvs \<Rightarrow> (case map_of kvs k of Some x \<Rightarrow> x | None \<Rightarrow> NUndef)
      | NProxy segments \<Rightarrow> proxyGet segments k
      | _ \<Rightarrow> NUndef)"

definition nullish :: "nval \<Rightarrow> bool" where
  "nullish v = (case v of NUndef \<Rightarrow> True | NNull \<Rightarrow> True | _ \<Rightarrow> False)"

definition ntruthy :: "nval \<Rightarrow> bool" where
  "ntruthy v =
     (case v of
        NUndef \<Rightarrow> False
      | NNull \<Rightarrow> False
      | NBool b \<Rightarrow> b
      | NNum n \<Rightarrow> n \<noteq> 0
      | NStr s \<Rightarrow> s \<noteq> []
      | _ \<Rightarrow> True)"

definition isCallable :: "nval \<Rightarrow> bool" where
  "isCallable v =
     (case v of
        NFun _ \<Rightarrow> True
      | NBuiltin _ \<Rightarrow> True
      | NProxy _ \<Rightarrow> True
      | NNoun _ \<Rightarrow> True
      | _ \<Rightarrow> False)"

text \<open>The text of a value in a template literal and of an element in \<^verbatim>\<open>Array.join\<close>.\<close>

definition templateText :: "(nval \<Rightarrow> string) \<Rightarrow> nval \<Rightarrow> string" where
  "templateText ts v = (case v of NStr s \<Rightarrow> s | _ \<Rightarrow> ts v)"

definition elementText :: "(nval \<Rightarrow> string) \<Rightarrow> nval \<Rightarrow> string" where
  "elementText ts v =
     (case v of NStr s \<Rightarrow> s | NUndef \<Rightarrow> [] | NNull \<Rightarrow> [] | _ \<Rightarrow> ts v)"

text \<open>
  What the body of the loop of \<^verbatim>\<open>Noun\<close> decides for one value, in the order of its tests:
  the entry of \<^verbatim>\<open>$meta\<close> it writes, or none.
\<close>

datatype fieldClass =
    CInput string
  | CGenerate string
  | CAggregate string string
  | CFuzzy string
  | CLink string nval
  | CSync string
  | CRef string
  | CCompute nval

definition classifyPath :: "(nval \<Rightarrow> string) \<Rightarrow> nval \<Rightarrow> fieldClass option" where
  "classifyPath ts v =
     (case (if ntruthy (nprop v ''$'') then nprop (nprop v ''$'') ''path'' else NUndef) of
        NArr p \<Rightarrow>
          (case p of
             [] \<Rightarrow> None
           | x # xs \<Rightarrow>
               if List.member (map NStr EXTERNAL_SOURCES) x
               then Some (CSync (join ''.'' (map (elementText ts) p)))
               else Some (CRef (join ''.'' (map (elementText ts) p))))
      | _ \<Rightarrow> if isCallable v then Some (CCompute v) else None)"

definition stringOf :: "nval \<Rightarrow> string option" where
  "stringOf v = (case v of NStr s \<Rightarrow> Some s | _ \<Rightarrow> None)"

definition classify :: "(nval \<Rightarrow> string) \<Rightarrow> nval \<Rightarrow> fieldClass option" where
  "classify ts v =
     (case stringOf v of
        Some s \<Rightarrow>
          Some (if str_includes s ''{'' \<and> str_includes s ''}'' then CGenerate s else CInput s)
      | None \<Rightarrow>
          (case stringOf (nprop v ''$sum'') of Some p \<Rightarrow> Some (CAggregate ''sum'' p) | None \<Rightarrow>
          (case stringOf (nprop v ''$count'') of Some p \<Rightarrow> Some (CAggregate ''count'' p) | None \<Rightarrow>
          (case stringOf (nprop v ''$avg'') of Some p \<Rightarrow> Some (CAggregate ''avg'' p) | None \<Rightarrow>
          (case stringOf (nprop v ''$min'') of Some p \<Rightarrow> Some (CAggregate ''min'' p) | None \<Rightarrow>
          (case stringOf (nprop v ''$max'') of Some p \<Rightarrow> Some (CAggregate ''max'' p) | None \<Rightarrow>
          (case stringOf (nprop v ''$fuzzy'') of Some t \<Rightarrow> Some (CFuzzy t) | None \<Rightarrow>
          (case stringOf (nprop v ''$query'') of
             Some t \<Rightarrow> Some (CLink t (nprop v ''filter''))
           | None \<Rightarrow> classifyPath ts v))))))))"

record NounMeta =
  mtype :: nval
  mcontext :: nval
  mextends :: nval
  input :: "(string \<times> string) list"
  sync :: "(string \<times> string) list"
  ref :: "(string \<times> string) list"
  compute :: "(string \<times> nval) list"
  aggregate :: "(string \<times> string \<times> string) list"
  generate :: "(string \<times> string) list"
  link :: "(string \<times> string \<times> nval) list"
  fuzzy :: "(string \<times> string) list"

definition initialMeta :: "(string \<times> nval) list \<Rightarrow> NounMeta" where
  "initialMeta definition' =
     \<lparr> mtype = nprop (NObj definition') ''$type'',
       mcontext =
         (if nullish (nprop (NObj definition') ''$context'')
          then nprop (nprop (nprop (NObj definition') ''$extends'') ''$meta'') ''context''
          else nprop (NObj definition') ''$context''),
       mextends =
         (if nullish (nprop (nprop (nprop (NObj definition') ''$extends'') ''$meta'') ''type'')
          then nprop (NObj definition') ''$extends''
          else nprop (nprop (nprop (NObj definition') ''$extends'') ''$meta'') ''type''),
       input = [], sync = [], ref = [], compute = [], aggregate = [], generate = [],
       link = [], fuzzy = [] \<rparr>"

definition writeMeta :: "string \<Rightarrow> fieldClass \<Rightarrow> NounMeta \<Rightarrow> NounMeta" where
  "writeMeta k c m =
     (case c of
        CInput s \<Rightarrow> m\<lparr>input := AList.update k s (input m)\<rparr>
      | CGenerate s \<Rightarrow> m\<lparr>generate := AList.update k s (generate m)\<rparr>
      | CAggregate opn p \<Rightarrow> m\<lparr>aggregate := AList.update k (opn, p) (aggregate m)\<rparr>
      | CFuzzy t \<Rightarrow> m\<lparr>fuzzy := AList.update k t (fuzzy m)\<rparr>
      | CLink t f \<Rightarrow> m\<lparr>link := AList.update k (t, f) (link m)\<rparr>
      | CSync s \<Rightarrow> m\<lparr>sync := AList.update k s (sync m)\<rparr>
      | CRef p \<Rightarrow> m\<lparr>ref := AList.update k p (ref m)\<rparr>
      | CCompute f \<Rightarrow> m\<lparr>compute := AList.update k f (compute m)\<rparr>)"

definition nounEntry :: "(nval \<Rightarrow> string) \<Rightarrow> string \<Rightarrow> nval \<Rightarrow> NounMeta \<Rightarrow> NounMeta" where
  "nounEntry ts k v m =
     (if startsWith k ''$'' then m
      else (case classify ts v of None \<Rightarrow> m | Some c \<Rightarrow> writeMeta k c m))"

primrec nounEntries :: "(nval \<Rightarrow> string) \<Rightarrow> (string \<times> nval) list \<Rightarrow> NounMeta \<Rightarrow> NounMeta" where
  "nounEntries ts [] m = m"
| "nounEntries ts (kv # kvs) m = nounEntries ts kvs (nounEntry ts (fst kv) (snd kv) m)"

text \<open>\<^verbatim>\<open>Noun(definition)\<close>: the \<^verbatim>\<open>$meta\<close> of the noun it returns.\<close>

definition Noun :: "(nval \<Rightarrow> string) \<Rightarrow> (string \<times> nval) list \<Rightarrow> NounMeta" where
  "Noun ts definition' = nounEntries ts definition' (initialMeta definition')"

datatype Source = Input | Sync | Ref | Compute | Aggregate | Generate | Link | Fuzzy

record SerializedField =
  source :: Source
  fvalue :: nval
  fn :: "string option"

record SerializedNoun =
  stype :: nval
  scontext :: nval
  sextends :: nval
  sfields :: "(string \<times> SerializedField) list"
  smeta :: NounMeta

text \<open>One loop of \<^verbatim>\<open>serializeNoun\<close>: \<^verbatim>\<open>fields[key] = ...\<close> for every key of one dictionary of
  \<^verbatim>\<open>$meta\<close>.\<close>

definition assignAll ::
  "('a \<Rightarrow> SerializedField) \<Rightarrow> (string \<times> 'a) list
     \<Rightarrow> (string \<times> SerializedField) list \<Rightarrow> (string \<times> SerializedField) list" where
  "assignAll g xs acc = foldl (\<lambda>a kx. AList.update (fst kx) (g (snd kx)) a) acc xs"

definition functionText :: "(nval \<Rightarrow> string) \<Rightarrow> nval \<Rightarrow> string option" where
  "functionText ts f = (if nullish f then None else Some (ts f))"

definition serializeNoun :: "(nval \<Rightarrow> string) \<Rightarrow> NounMeta \<Rightarrow> SerializedNoun" where
  "serializeNoun ts meta =
     \<lparr> stype = mtype meta, scontext = mcontext meta, sextends = mextends meta,
       sfields =
         assignAll (\<lambda>t. \<lparr>source = Fuzzy, fvalue = NStr t, fn = None\<rparr>) (fuzzy meta)
        (assignAll (\<lambda>l. \<lparr>source = Link, fvalue = NStr (fst l), fn = functionText ts (snd l)\<rparr>)
           (link meta)
        (assignAll (\<lambda>p. \<lparr>source = Generate, fvalue = NStr p, fn = None\<rparr>) (generate meta)
        (assignAll (\<lambda>a. \<lparr>source = Aggregate,
                           fvalue = NObj [(''op'', NStr (fst a)), (''path'', NStr (snd a))],
                           fn = None\<rparr>) (aggregate meta)
        (assignAll (\<lambda>f. \<lparr>source = Compute, fvalue = NNull, fn = functionText ts f\<rparr>)
           (compute meta)
        (assignAll (\<lambda>p. \<lparr>source = Ref, fvalue = NStr p, fn = None\<rparr>) (ref meta)
        (assignAll (\<lambda>s. \<lparr>source = Sync, fvalue = NStr s, fn = None\<rparr>) (sync meta)
        (assignAll (\<lambda>d. \<lparr>source = Input, fvalue = NStr d, fn = None\<rparr>) (input meta)
           []))))))),
       smeta = meta \<rparr>"

text \<open>
  What the \<^verbatim>\<open>switch\<close> of \<^verbatim>\<open>parseNoun\<close> assigns for one field: a value, nothing, or a
  TypeError (\<^verbatim>\<open>split\<close> of a value that is no string, destructuring of \<^verbatim>\<open>null\<close> or
  \<^verbatim>\<open>undefined\<close>).
\<close>

datatype rebuilt = Rebuilt nval | NotRebuilt | RebuildFails

definition reconstruct :: "(nval \<Rightarrow> string) \<Rightarrow> SerializedField \<Rightarrow> rebuilt" where
  "reconstruct ts f =
     (case source f of
        Input \<Rightarrow> Rebuilt (fvalue f)
      | Generate \<Rightarrow> Rebuilt (fvalue f)
      | Sync \<Rightarrow>
          (case fvalue f of
             NStr s \<Rightarrow> Rebuilt (NObj [(''$'', NObj [(''path'', NArr (map NStr (split (CHR ''.'') s)))])])
           | _ \<Rightarrow> RebuildFails)
      | Ref \<Rightarrow>
          (case fvalue f of
             NStr s \<Rightarrow> Rebuilt (NObj [(''$'', NObj [(''path'', NArr (map NStr (split (CHR ''.'') s)))])])
           | _ \<Rightarrow> RebuildFails)
      | Aggregate \<Rightarrow>
          (if nullish (fvalue f) then RebuildFails
           else Rebuilt (NObj [(''$'' @ templateText ts (nprop (fvalue f) ''op''),
                                nprop (fvalue f) ''path'')]))
      | Compute \<Rightarrow>
          (case fn f of
             Some t \<Rightarrow> if t \<noteq> [] then Rebuilt (NObj [(''$fn'', NStr t)]) else NotRebuilt
           | None \<Rightarrow> NotRebuilt)
      | Link \<Rightarrow>
          (case fn f of
             Some t \<Rightarrow> if t \<noteq> [] then Rebuilt (NObj [(''$fn'', NStr t)]) else NotRebuilt
           | None \<Rightarrow> NotRebuilt)
      | Fuzzy \<Rightarrow> Rebuilt (NObj [(''$fuzzy'', fvalue f)]))"

fun rebuildDefinition ::
  "(nval \<Rightarrow> string) \<Rightarrow> (string \<times> SerializedField) list \<Rightarrow> (string \<times> nval) list
     \<Rightarrow> (string \<times> nval) list option" where
  "rebuildDefinition ts [] definition' = Some definition'"
| "rebuildDefinition ts ((k, f) # fs) definition' =
     (case reconstruct ts f of
        RebuildFails \<Rightarrow> None
      | NotRebuilt \<Rightarrow> rebuildDefinition ts fs definition'
      | Rebuilt v \<Rightarrow> rebuildDefinition ts fs (AList.update k v definition'))"

text \<open>\<^verbatim>\<open>parseNoun\<close>: the \<^verbatim>\<open>$meta\<close> of the noun it returns, or \<open>None\<close> when it throws.\<close>

definition parseNoun :: "(nval \<Rightarrow> string) \<Rightarrow> SerializedNoun \<Rightarrow> NounMeta option" where
  "parseNoun ts serialized =
     map_option (Noun ts)
       (rebuildDefinition ts (sfields serialized)
          [(''$type'', stype serialized), (''$context'', scontext serialized)])"

definition sourceOf :: "SerializedNoun \<Rightarrow> string \<Rightarrow> Source option" where
  "sourceOf s k = map_option source (map_of (sfields s) k)"

text \<open>
  The field \<^verbatim>\<open>serializeNoun\<close> writes for an entry of \<^verbatim>\<open>$meta\<close>, the decision of \<^verbatim>\<open>Noun\<close> for the
  key \<open>k\<close> of a definition, and the dictionaries of a \<^verbatim>\<open>$meta\<close> as objects: no key twice.
\<close>

definition fieldOf :: "(nval \<Rightarrow> string) \<Rightarrow> fieldClass \<Rightarrow> SerializedField" where
  "fieldOf ts c =
     (case c of
        CInput s \<Rightarrow> \<lparr>source = Input, fvalue = NStr s, fn = None\<rparr>
      | CGenerate s \<Rightarrow> \<lparr>source = Generate, fvalue = NStr s, fn = None\<rparr>
      | CAggregate opn p \<Rightarrow>
          \<lparr>source = Aggregate, fvalue = NObj [(''op'', NStr opn), (''path'', NStr p)], fn = None\<rparr>
      | CFuzzy t \<Rightarrow> \<lparr>source = Fuzzy, fvalue = NStr t, fn = None\<rparr>
      | CLink t f \<Rightarrow> \<lparr>source = Link, fvalue = NStr t, fn = functionText ts f\<rparr>
      | CSync s \<Rightarrow> \<lparr>source = Sync, fvalue = NStr s, fn = None\<rparr>
      | CRef p \<Rightarrow> \<lparr>source = Ref, fvalue = NStr p, fn = None\<rparr>
      | CCompute f \<Rightarrow> \<lparr>source = Compute, fvalue = NNull, fn = functionText ts f\<rparr>)"

definition classOf :: "(nval \<Rightarrow> string) \<Rightarrow> (string \<times> nval) list \<Rightarrow> string \<Rightarrow> fieldClass option" where
  "classOf ts definition' k =
     (case map_of definition' k of
        None \<Rightarrow> None
      | Some v \<Rightarrow> if startsWith k ''$'' then None else classify ts v)"

definition wellFormed :: "NounMeta \<Rightarrow> bool" where
  "wellFormed m \<longleftrightarrow>
     distinct (map fst (input m)) \<and> distinct (map fst (sync m)) \<and> distinct (map fst (ref m)) \<and>
     distinct (map fst (compute m)) \<and> distinct (map fst (aggregate m)) \<and>
     distinct (map fst (generate m)) \<and> distinct (map fst (link m)) \<and>
     distinct (map fst (fuzzy m))"

definition isRoundTripKind :: "Source \<Rightarrow> bool" where
  "isRoundTripKind k = List.member [Input, Generate, Aggregate, Fuzzy] k"

section \<open>The identity of the query context\<close>

text \<open>
  What \<^verbatim>\<open>inferContext\<close> reads: the global \<^verbatim>\<open>__DO_CONTEXT__\<close>, the \<^verbatim>\<open>host\<close> header of the
  global request, the environment of the process when there is one, and the \<^verbatim>\<open>$context\<close>
  of the global \<^verbatim>\<open>__DO_CONFIG__\<close>. An absent value is \<open>None\<close>; the empty text is falsy.
\<close>

record ambient =
  DO_CONTEXT_global :: "string option"
  request_host :: "string option"
  process_env :: "(string \<Rightarrow> string option) option"
  DO_CONFIG_context :: "string option"

definition present :: "string option \<Rightarrow> bool" where
  "present x = (case x of None \<Rightarrow> False | Some s \<Rightarrow> s \<noteq> [])"

definition inferContext :: "ambient \<Rightarrow> string" where
  "inferContext g =
     (if present (DO_CONTEXT_global g) then the (DO_CONTEXT_global g)
      else if present (request_host g) then ''https://'' @ the (request_host g)
      else if process_env g \<noteq> None \<and> present (the (process_env g) ''DO_CONTEXT'')
        then the (the (process_env g) ''DO_CONTEXT'')
      else if process_env g \<noteq> None \<and> present (the (process_env g) ''VERCEL_URL'')
        then ''https://'' @ the (the (process_env g) ''VERCEL_URL'')
      else if process_env g \<noteq> None \<and> present (the (process_env g) ''CF_PAGES_URL'')
        then the (the (process_env g) ''CF_PAGES_URL'')
      else if process_env g \<noteq> None \<and> present (the (process_env g) ''WORKER_HOST'')
        then ''https://'' @ the (the (process_env g) ''WORKER_HOST'')
      else if present (DO_CONFIG_context g) then the (DO_CONFIG_context g)
      else ''http://localhost:3000'')"

text \<open>
  The order of the specification: the sources, each with the identity it yields or \<open>None\<close>;
  the first that yields one wins.
\<close>

definition yield :: "(string \<Rightarrow> string) \<Rightarrow> string option \<Rightarrow> string option" where
  "yield f x = (if present x then Some (f (the x)) else None)"

fun firstSome :: "'a option list \<Rightarrow> 'a option" where
  "firstSome [] = None"
| "firstSome (None # xs) = firstSome xs"
| "firstSome (Some x # xs) = Some x"

definition explicitOverride :: "ambient \<Rightarrow> string option" where
  "explicitOverride g = yield id (DO_CONTEXT_global g)"

definition requestDerivedHost :: "ambient \<Rightarrow> string option" where
  "requestDerivedHost g = yield (\<lambda>h. ''https://'' @ h) (request_host g)"

definition environmentVariables :: "ambient \<Rightarrow> string option" where
  "environmentVariables g =
     (case process_env g of
        None \<Rightarrow> None
      | Some env \<Rightarrow>
          firstSome [yield id (env ''DO_CONTEXT''),
                     yield (\<lambda>h. ''https://'' @ h) (env ''VERCEL_URL''),
                     yield id (env ''CF_PAGES_URL''),
                     yield (\<lambda>h. ''https://'' @ h) (env ''WORKER_HOST'')])"

definition staticConfig :: "ambient \<Rightarrow> string option" where
  "staticConfig g = yield id (DO_CONFIG_context g)"

definition fixedFallback :: string where
  "fixedFallback = ''http://localhost:3000''"

definition resolutionOrder :: "ambient \<Rightarrow> string option list" where
  "resolutionOrder g =
     [explicitOverride g, requestDerivedHost g, environmentVariables g, staticConfig g,
      Some fixedFallback]"

section \<open>Example definitions\<close>

text \<open>
  A definition with migrations to the versions 2, 4, 5 and 7, the three event handlers of its
  type, a code function and two generative functions, and two environments: in the first
  every handler returns after it has written its number to the storage; in the second the
  migration to version 4 throws after it has written to the storage.
\<close>

definition exampleDefinition :: "(string \<times> jsval) list" where
  "exampleDefinition =
     [(''$type'', VStr ''Account''), (''$version'', VNum 5), (''name'', VStr ''Account name''),
      (''migrate.5'', VFun 5), (''migrate.2'', VFun 2), (''migrate.4'', VFun 4),
      (''migrate.7'', VFun 7),
      (''onAccountCreated'', VFun 10), (''onAccountUpdated'', VFun 11),
      (''onAccountDeleted'', VFun 12),
      (''double'', VFun 20),
      (''pitch'', VStr ''Generate pitch for {name}''),
      (''summary'', VObj [(''mdx'', VStr ''Summarize {name}'')])]"

definition exampleObject :: DigitalObjectDefinition where
  "exampleObject = fst (new_DigitalObjectDefinition exampleDefinition None 0)"

definition recordingEnvironment :: environment where
  "recordingEnvironment =
     \<lparr> apply_function = (\<lambda>f args. Returned (VArr args)),
       run_handler = (\<lambda>f args s. (None, s(''last'' \<mapsto> VNum (int f)))),
       source_text = (\<lambda>f. ''function'') \<rparr>"

definition failingEnvironment :: environment where
  "failingEnvironment =
     \<lparr> apply_function = (\<lambda>f args. Returned (VArr args)),
       run_handler = (\<lambda>f args s.
          if f = 4 then (Some (Error ''migration 4 failed''), s(''partial'' \<mapsto> VNum 4))
          else (None, s(''last'' \<mapsto> VNum (int f)))),
       source_text = (\<lambda>f. ''function'') \<rparr>"

definition storageAt :: "int \<Rightarrow> store" where
  "storageAt n = Map.empty(''$version'' \<mapsto> VNum n)"

text \<open>
  The example after a \<^verbatim>\<open>bind\<close> to a current storage, and the example bound to a storage
  that holds one instance.
\<close>

definition boundExample :: DigitalObjectDefinition where
  "boundExample = snd (snd (bind recordingEnvironment exampleObject (storageAt 5)))"

definition storedExample :: DigitalObjectDefinition where
  "storedExample = exampleObject\<lparr>binding := Bound (Map.empty(''a1'' \<mapsto> VObj [(''n'', VNum 1)]))\<rparr>"

text \<open>A definition with no entry but its type, and the text without its trailing white
  space.\<close>

definition emptyParsed :: ParsedDefinition where
  "emptyParsed = initialParsed [(''$type'', VStr ''Startup'')]"

definition rstrip :: "string \<Rightarrow> string" where
  "rstrip s = rev (dropWhile isSpace (rev s))"

text \<open>\<open>operatorAt s\<close>: the text \<open>s\<close> starts with a cascade operator.\<close>

definition operatorAt :: "string \<Rightarrow> bool" where
  "operatorAt s = list_ex (startsWith s) CASCADE_OPERATORS"

text \<open>
  The values \<^verbatim>\<open>parseDefinition\<close> registers as functions: a function, or an object with no
  member \<^verbatim>\<open>mdx\<close>.
\<close>

definition storedFunction :: "jsval \<Rightarrow> bool" where
  "storedFunction v =
     (case v of VFun f \<Rightarrow> True | VObj kvs \<Rightarrow> \<not> hasKey ''mdx'' v | _ \<Rightarrow> False)"

definition storedFunctions :: "ParsedDefinition \<Rightarrow> bool" where
  "storedFunctions pd = list_all storedFunction (map snd (functions' pd))"

text \<open>
  A noun definition with a field of every kind, and a conversion of functions to text.
\<close>

definition businessDefinition :: "(string \<times> nval) list" where
  "businessDefinition =
     [(''$type'', NStr ''Business''),
      (''domain'', NStr ''Primary domain''),
      (''stripe'', NProxy [''Stripe'', ''Account'']),
      (''stripeBalance'', NProxy [''stripe'', ''balance'']),
      (''mrr'', NObj [(''$sum'', NStr ''subscriptions.amount'')]),
      (''arr'', NFun 1),
      (''positioning'', NStr ''Positioning statement for {name}''),
      (''occupation'', NObj [(''$fuzzy'', NStr ''Occupation'')]),
      (''products'', NObj [(''$query'', NStr ''Product''), (''filter'', NFun 2)])]"

definition sourceText :: "nval \<Rightarrow> string" where
  "sourceText v = (case v of NFun n \<Rightarrow> ''function () {}'' | _ \<Rightarrow> ''[object Object]'')"

section \<open>Migrations at \<^verbatim>\<open>bind\<close>\<close>

lemma migrations_addField [simp]: "migrations (addField k f pd) = migrations pd"
  by (simp add: addField_def split: option.splits)

lemma parseValueEntry_migrations:
  "migrations (fst (parseValueEntry k v (pd, li))) = migrations pd"
  by (auto simp: parseValueEntry_def split: jsval.splits list.splits prod.splits bool.splits)

lemma parseEntry_distinct_migrations:
  "distinct (map fst (migrations (fst st))) \<Longrightarrow>
   distinct (map fst (migrations (fst (parseEntry k v st))))"
  by (cases st)
     (auto simp: parseEntry_def parseValueEntry_migrations distinct_update
           split: jsval.splits option.splits prod.splits)

lemma parseEntries_distinct_migrations:
  "distinct (map fst (migrations (fst st))) \<Longrightarrow>
   distinct (map fst (migrations (fst (parseEntries kvs st))))"
  by (induction kvs arbitrary: st) (simp_all add: parseEntry_distinct_migrations)

lemma parseDefinition_distinct_migrations:
  "distinct (map fst (migrations (fst (parseDefinition def li))))"
  by (simp add: parseDefinition_def parseEntries_distinct_migrations initialParsed_def)

lemma runMigrations_trace:
  "runMigrations env migs vs s = (tr, None, s') \<Longrightarrow> set vs \<subseteq> fst ` set migs \<Longrightarrow>
   tr = map (\<lambda>v. MigrationCall v (the (map_of migs v))) vs"
proof (induction vs arbitrary: s tr)
  case Nil
  then show ?case by simp
next
  case (Cons v vs)
  from Cons.prems(2) obtain f where f: "map_of migs v = Some f"
    by (metis (no_types, lifting) domD dom_map_of_conv_image_fst insert_subset list.simps(15))
  with Cons show ?case
    by (auto split: option.splits prod.splits)
qed

lemma runMigrations_append:
  "runMigrations env migs (xs @ ys) s =
     (case runMigrations env migs xs s of
        (tr, Some e, s') \<Rightarrow> (tr, Some e, s')
      | (tr, None, s') \<Rightarrow>
          (case runMigrations env migs ys s' of (tr', r, s'') \<Rightarrow> (tr @ tr', r, s'')))"
  by (induction xs arbitrary: s) (auto split: option.splits prod.splits)

lemma sort_filter_distinct:
  assumes "distinct xs"
  shows "sort (filter P xs) = sorted_list_of_set {x \<in> set xs. P x}"
proof -
  have "sorted_list_of_set (set (filter P xs)) = sort (remdups (filter P xs))"
    by (rule sorted_list_of_set_sort_remdups)
  also have "remdups (filter P xs) = filter P xs"
    using assms by (simp add: distinct_remdups_id)
  finally show ?thesis by simp
qed

lemma migrationVersions_eq:
  "distinct (map fst (migrations pd)) \<Longrightarrow>
   migrationVersions pd S =
     sorted_list_of_set {v \<in> fst ` set (migrations pd). S < v \<and> v \<le> dollar_version pd}"
  unfolding migrationVersions_def by (simp add: sort_filter_distinct)

lemma set_migrationVersions: "set (migrationVersions pd S) \<subseteq> fst ` set (migrations pd)"
  unfolding migrationVersions_def by auto

lemma runMigrations_storage:
  "runMigrations env migs vs s = (tr, None, s') \<Longrightarrow> set vs \<subseteq> fst ` set migs \<Longrightarrow>
   s' = foldl (\<lambda>st v. snd (run_handler env (the (map_of migs v)) [] st)) s vs"
proof (induction vs arbitrary: s tr)
  case Nil
  then show ?case by simp
next
  case (Cons v vs)
  from Cons.prems(2) obtain f where f: "map_of migs v = Some f"
    by (metis (no_types, lifting) domD dom_map_of_conv_image_fst insert_subset list.simps(15))
  with Cons show ?case
    by (auto split: option.splits prod.splits)
qed

lemma runMigrations_prefix:
  "set vs \<subseteq> fst ` set migs \<Longrightarrow>
   fst (runMigrations env migs vs s) =
     take (length (fst (runMigrations env migs vs s)))
       (map (\<lambda>v. MigrationCall v (the (map_of migs v))) vs)"
proof (induction vs arbitrary: s)
  case Nil
  then show ?case by simp
next
  case (Cons v vs)
  from Cons.prems obtain f where f: "map_of migs v = Some f"
    by (metis (no_types, lifting) domD dom_map_of_conv_image_fst insert_subset list.simps(15))
  from Cons.prems have sub: "set vs \<subseteq> fst ` set migs" by simp
  show ?case
  proof (cases "run_handler env f [] s")
    case (Pair r s1)
    show ?thesis
    proof (cases r)
      case None
      with Pair f Cons.IH [OF sub, of s1] show ?thesis
        by (auto split: prod.splits)
    next
      case (Some e)
      with Pair f show ?thesis by simp
    qed
  qed
qed


lemma toJSON_binding: "toJSON env (d\<lparr>binding := b\<rparr>) = toJSON env d"
  by (simp add: toJSON_def)

text \<open>
  Claim C2. A definition at version \<open>V\<close> is bound to a storage whose recorded version is
  \<open>S\<close>. When the storage is current (\<open>V \<le> S\<close>) \<^verbatim>\<open>bind\<close> calls no migration, writes the
  definition and its version to the storage and returns. In every case the calls of \<^verbatim>\<open>bind\<close>
  are an initial part of the registered migrations whose version lies in \<open>(S, V]\<close>, taken
  in strictly increasing order of version, each once. When \<^verbatim>\<open>bind\<close> returns it has called
  all of them, each on the storage as the one before left it, and the storage it leaves is
  the result of these calls with the definition and the version \<open>V\<close> written to it.
\<close>

theorem bind_runs_pending_migrations_in_order:
  assumes "parsed d = fst (parseDefinition def li)"
    and "storedVersion storage = Some S"
  shows
    "(dollar_version (parsed d) \<le> S \<longrightarrow>
        bind env d storage =
          ([], Returned (),
           d\<lparr>binding := Bound (storage(''$'' \<mapsto> toJSON env d,
                                        ''$version'' \<mapsto> VNum (dollar_version (parsed d))))\<rparr>))
     \<and> fst (bind env d storage) =
         take (length (fst (bind env d storage)))
           (map (\<lambda>v. MigrationCall v (the (map_of (migrations (parsed d)) v)))
              (sorted_list_of_set {v \<in> fst ` set (migrations (parsed d)).
                                     S < v \<and> v \<le> dollar_version (parsed d)}))
     \<and> (fst (snd (bind env d storage)) = Returned () \<longrightarrow>
          fst (bind env d storage) =
            map (\<lambda>v. MigrationCall v (the (map_of (migrations (parsed d)) v)))
              (sorted_list_of_set {v \<in> fst ` set (migrations (parsed d)).
                                     S < v \<and> v \<le> dollar_version (parsed d)})
          \<and> snd (snd (bind env d storage)) =
              d\<lparr>binding := Bound
                ((foldl (\<lambda>s v. snd (run_handler env (the (map_of (migrations (parsed d)) v)) [] s))
                    storage
                    (sorted_list_of_set {v \<in> fst ` set (migrations (parsed d)).
                                           S < v \<and> v \<le> dollar_version (parsed d)}))
                 (''$'' \<mapsto> toJSON env d,
                  ''$version'' \<mapsto> VNum (dollar_version (parsed d))))\<rparr>)"
proof -
  let ?V = "dollar_version (parsed d)"
  let ?migs = "migrations (parsed d)"
  let ?pending = "sorted_list_of_set {v \<in> fst ` set ?migs. S < v \<and> v \<le> ?V}"
  let ?call = "\<lambda>v. MigrationCall v (the (map_of ?migs v))"
  let ?step = "\<lambda>s v. snd (run_handler env (the (map_of ?migs v)) [] s)"
  let ?done = "\<lambda>s. d\<lparr>binding := Bound (s(''$'' \<mapsto> toJSON env d, ''$version'' \<mapsto> VNum ?V))\<rparr>"
  have dist: "distinct (map fst ?migs)"
    using assms(1) parseDefinition_distinct_migrations by simp
  have pending: "migrationVersions (parsed d) S = ?pending"
    by (rule migrationVersions_eq [OF dist])
  show ?thesis
  proof (cases "S < ?V")
    case False
    then have "{v \<in> fst ` set ?migs. S < v \<and> v \<le> ?V} = {}" by auto
    then have e: "?pending = []" by simp
    have "bind env d storage = ([], Returned (), ?done storage)"
      using False assms(2) by (simp add: bind_def checkMigrations_def toJSON_binding)
    then show ?thesis unfolding e by simp
  next
    case True
    obtain tr r s' where run: "runMigrations env ?migs ?pending storage = (tr, r, s')"
      by (metis prod_cases3)
    have sub: "set ?pending \<subseteq> fst ` set ?migs"
      using set_migrationVersions [of "parsed d" S] by (simp only: pending)
    have prefix: "tr = take (length tr) (map ?call ?pending)"
      using runMigrations_prefix [OF sub, of env storage] run by simp
    show ?thesis
    proof (cases r)
      case (Some e)
      with run True assms(2) have "bind env d storage = (tr, Threw e, d\<lparr>binding := Bound s'\<rparr>)"
        by (simp add: bind_def checkMigrations_def pending)
      with True prefix show ?thesis by simp
    next
      case None
      with run have tr: "tr = map ?call ?pending" and s': "s' = foldl ?step storage ?pending"
        using runMigrations_trace [OF _ sub] runMigrations_storage [OF _ sub] by blast+
      from None run True assms(2) have "bind env d storage = (tr, Returned (), ?done s')"
        by (simp add: bind_def checkMigrations_def pending toJSON_binding)
      with True tr s' show ?thesis by simp
    qed
  qed
qed

lemma exampleObject_parsed: "parsed exampleObject = fst (parseDefinition exampleDefinition 0)"
  by (simp add: exampleObject_def new_DigitalObjectDefinition_def split: prod.splits)

text \<open>
  The example of the specification: migrations at 2, 4 and 5 (and one at 7, beyond the
  definition's version 5), storage at version 1: the calls are 2, 4, 5, and the storage holds
  what the last of them wrote. On a storage at version 5 no migration is called.
\<close>

theorem bind_runs_pending_migrations_in_order_witness:
  "storedVersion (storageAt 1) = Some 1
   \<and> sorted_list_of_set {v \<in> fst ` set (migrations (parsed exampleObject)).
                            1 < v \<and> v \<le> dollar_version (parsed exampleObject)} = [2, 4, 5]
   \<and> bind recordingEnvironment exampleObject (storageAt 1)
       = ([MigrationCall 2 2, MigrationCall 4 4, MigrationCall 5 5], Returned (),
          exampleObject\<lparr>binding := Bound
            ((storageAt 1)(''last'' \<mapsto> VNum 5,
                           ''$'' \<mapsto> toJSON recordingEnvironment exampleObject,
                           ''$version'' \<mapsto> VNum 5))\<rparr>)
   \<and> storedVersion (storageAt 5) = Some 5
   \<and> dollar_version (parsed exampleObject) = 5
   \<and> bind recordingEnvironment exampleObject (storageAt 5)
       = ([], Returned (),
          exampleObject\<lparr>binding := Bound
            ((storageAt 5)(''$'' \<mapsto> toJSON recordingEnvironment exampleObject,
                           ''$version'' \<mapsto> VNum 5))\<rparr>)"
proof -
  let ?b = "bind recordingEnvironment exampleObject (storageAt 1)"
  have s1: "storedVersion (storageAt 1) = Some 1" by code_simp
  have s5: "storedVersion (storageAt 5) = Some 5" by code_simp
  have v: "dollar_version (parsed exampleObject) = 5" by code_simp
  have r: "fst (snd ?b) = Returned ()" by code_simp
  have m: "map_of (migrations (parsed exampleObject)) 2 = Some 2"
    "map_of (migrations (parsed exampleObject)) 4 = Some 4"
    "map_of (migrations (parsed exampleObject)) 5 = Some 5"
    by code_simp+
  have mv: "migrationVersions (parsed exampleObject) 1 = [2, 4, 5]" by code_simp
  have "distinct (map fst (migrations (parsed exampleObject)))"
    unfolding exampleObject_parsed by (rule parseDefinition_distinct_migrations)
  from migrationVersions_eq [OF this, of 1] mv
  have p: "sorted_list_of_set {v \<in> fst ` set (migrations (parsed exampleObject)).
                                 1 < v \<and> v \<le> dollar_version (parsed exampleObject)} = [2, 4, 5]"
    by simp
  have h: "run_handler recordingEnvironment f [] s = (None, s(''last'' \<mapsto> VNum (int f)))" for f s
    by (simp add: recordingEnvironment_def)
  note a = bind_runs_pending_migrations_in_order
             [OF exampleObject_parsed s1, of recordingEnvironment]
  note b = bind_runs_pending_migrations_in_order
             [OF exampleObject_parsed s5, of recordingEnvironment]
  from a r have "fst ?b = [MigrationCall 2 2, MigrationCall 4 4, MigrationCall 5 5]"
    and "snd (snd ?b) = exampleObject\<lparr>binding := Bound
            ((storageAt 1)(''last'' \<mapsto> VNum 5,
                           ''$'' \<mapsto> toJSON recordingEnvironment exampleObject,
                           ''$version'' \<mapsto> VNum 5))\<rparr>"
    unfolding p by (simp_all add: m h v)
  with r have one: "?b = ([MigrationCall 2 2, MigrationCall 4 4, MigrationCall 5 5], Returned (),
          exampleObject\<lparr>binding := Bound
            ((storageAt 1)(''last'' \<mapsto> VNum 5,
                           ''$'' \<mapsto> toJSON recordingEnvironment exampleObject,
                           ''$version'' \<mapsto> VNum 5))\<rparr>)"
    by (simp add: prod_eq_iff)
  from b v have five: "bind recordingEnvironment exampleObject (storageAt 5)
       = ([], Returned (),
          exampleObject\<lparr>binding := Bound
            ((storageAt 5)(''$'' \<mapsto> toJSON recordingEnvironment exampleObject,
                           ''$version'' \<mapsto> VNum 5))\<rparr>)"
    by simp
  from s1 p one s5 v five show ?thesis by (simp only: simp_thms)
qed

text \<open>
  Claim C3, as amended. The migrations \<open>applied\<close> have returned and the next one, to
  version \<open>v\<close>, throws \<open>e\<close>. Then \<^verbatim>\<open>bind\<close> throws \<open>e\<close>, the remaining migrations are
  not called, and \<^verbatim>\<open>bind\<close> writes nothing to the storage: the storage is left as the
  throwing migration left it. What the applied migrations wrote stays, and no version is
  recorded for them.
\<close>

theorem migration_failure_aborts_bind:
  assumes "storedVersion storage = Some S"
    and "S < dollar_version (parsed d)"
    and "migrationVersions (parsed d) S = applied @ v # remaining"
    and "runMigrations env (migrations (parsed d)) applied storage = (tr, None, s1)"
    and "map_of (migrations (parsed d)) v = Some f"
    and "run_handler env f [] s1 = (Some e, s2)"
  shows "bind env d storage = (tr @ [MigrationCall v f], Threw e, d\<lparr>binding := Bound s2\<rparr>)"
proof -
  have "runMigrations env (migrations (parsed d)) (v # remaining) s1
          = ([MigrationCall v f], Some e, s2)"
    using assms(5,6) by simp
  with assms(3,4) have
    "runMigrations env (migrations (parsed d)) (migrationVersions (parsed d) S) storage
       = (tr @ [MigrationCall v f], Some e, s2)"
    by (simp add: runMigrations_append)
  with assms(1,2) show ?thesis
    by (simp add: bind_def checkMigrations_def)
qed

theorem migration_failure_aborts_bind_witness:
  "storedVersion (storageAt 1) = Some 1
   \<and> 1 < dollar_version (parsed exampleObject)
   \<and> migrationVersions (parsed exampleObject) 1 = [2] @ 4 # [5]
   \<and> runMigrations failingEnvironment (migrations (parsed exampleObject)) [2] (storageAt 1)
        = ([MigrationCall 2 2], None, (storageAt 1)(''last'' \<mapsto> VNum 2))
   \<and> map_of (migrations (parsed exampleObject)) 4 = Some 4
   \<and> run_handler failingEnvironment 4 [] ((storageAt 1)(''last'' \<mapsto> VNum 2))
        = (Some (Error ''migration 4 failed''),
           (storageAt 1)(''last'' \<mapsto> VNum 2, ''partial'' \<mapsto> VNum 4))
   \<and> bind failingEnvironment exampleObject (storageAt 1)
        = ([MigrationCall 2 2] @ [MigrationCall 4 4], Threw (Error ''migration 4 failed''),
           exampleObject\<lparr>binding :=
             Bound ((storageAt 1)(''last'' \<mapsto> VNum 2, ''partial'' \<mapsto> VNum 4))\<rparr>)"
proof -
  have h1: "storedVersion (storageAt 1) = Some 1" by code_simp
  have h2: "1 < dollar_version (parsed exampleObject)" by code_simp
  have h3: "migrationVersions (parsed exampleObject) 1 = [2] @ 4 # [5]" by code_simp
  have m2: "map_of (migrations (parsed exampleObject)) 2 = Some 2" by code_simp
  have h4: "runMigrations failingEnvironment (migrations (parsed exampleObject)) [2] (storageAt 1)
        = ([MigrationCall 2 2], None, (storageAt 1)(''last'' \<mapsto> VNum 2))"
    using m2 by (simp add: failingEnvironment_def)
  have h5: "map_of (migrations (parsed exampleObject)) 4 = Some 4" by code_simp
  have h6: "run_handler failingEnvironment 4 [] ((storageAt 1)(''last'' \<mapsto> VNum 2))
        = (Some (Error ''migration 4 failed''),
           (storageAt 1)(''last'' \<mapsto> VNum 2, ''partial'' \<mapsto> VNum 4))"
    by (simp add: failingEnvironment_def)
  from migration_failure_aborts_bind [OF h1 h2 h3 h4 h5 h6] h1 h2 h3 h4 h5 h6
  show ?thesis by simp
qed

text \<open>
  Claim C3 as stated fails: after the migration to version 2 has returned and the one to
  version 4 has thrown, the storage that recorded version 1 before \<^verbatim>\<open>bind\<close> still records
  version 1, not 2, although it holds what the migration to version 2 wrote.
\<close>

theorem recorded_version_after_failure_counterexample:
  "fst (bind failingEnvironment exampleObject (storageAt 1))
     = [MigrationCall 2 2, MigrationCall 4 4]
   \<and> fst (snd (bind failingEnvironment exampleObject (storageAt 1)))
     = Threw (Error ''migration 4 failed'')
   \<and> instanceStore (snd (snd (bind failingEnvironment exampleObject (storageAt 1)))) ''$version''
     = Some (VNum 1)
   \<and> instanceStore (snd (snd (bind failingEnvironment exampleObject (storageAt 1)))) ''last''
     = Some (VNum 2)"
  by code_simp

section \<open>Event handlers\<close>

lemma boundExample_eq:
  "boundExample = exampleObject\<lparr>binding :=
      Bound ((storageAt 5)(''$'' \<mapsto> toJSON recordingEnvironment exampleObject,
                           ''$version'' \<mapsto> VNum 5))\<rparr>"
proof -
  have v: "dollar_version (parsed exampleObject) = 5" by code_simp
  have s5: "storedVersion (storageAt 5) = Some 5" by code_simp
  show ?thesis
    using v s5 by (simp add: boundExample_def bind_def checkMigrations_def toJSON_def)
qed

lemma exampleObject_type: "dollar_type (parsed exampleObject) = ''Account''"
  by code_simp

lemma exampleObject_version: "dollar_version (parsed exampleObject) = 5"
  by code_simp

lemma exampleObject_events:
  "events (parsed exampleObject) =
     [(''onAccountCreated'', 10), (''onAccountUpdated'', 11), (''onAccountDeleted'', 12)]"
  by code_simp

text \<open>
  Claim C8, as amended. On a definition that \<^verbatim>\<open>bind\<close> has given its context, with a handler
  registered under \<^verbatim>\<open>on<Type>Created\<close>, \<^verbatim>\<open>create\<close> calls that handler exactly once, after
  it has stored the instance and before it returns; it returns the new instance when the
  handler returns, and throws what the handler throws.
\<close>

theorem create_calls_created_handler_once_when_bound:
  assumes "binding d = Bound s"
    and "map_of (events (parsed d)) (''on'' @ dollar_type (parsed d) @ ''Created'') = Some f"
  shows "fst (create env d i dat) = [HandlerCall (''on'' @ dollar_type (parsed d) @ ''Created'') f]
       \<and> fst (snd (create env d i dat)) =
           (case fst (run_handler env f [newInstance d i dat]
                        (s(i \<mapsto> getProp (newInstance d i dat) ''data''))) of
              None \<Rightarrow> Returned (newInstance d i dat)
            | Some e \<Rightarrow> Threw e)"
  using assms
  by (simp add: create_def fire_def setInstanceStore_def instanceStore_def
        split: prod.splits option.splits)

theorem create_calls_created_handler_once_when_bound_witness:
  "binding boundExample
     = Bound ((storageAt 5)(''$'' \<mapsto> toJSON recordingEnvironment exampleObject,
                            ''$version'' \<mapsto> VNum 5))
   \<and> map_of (events (parsed boundExample)) (''on'' @ dollar_type (parsed boundExample) @ ''Created'')
       = Some 10
   \<and> fst (create recordingEnvironment boundExample ''a1'' [])
       = [HandlerCall ''onAccountCreated'' 10]
   \<and> fst (snd (create recordingEnvironment boundExample ''a1'' []))
       = Returned (VObj [(''$id'', VStr ''a1''), (''$type'', VStr ''Account''),
                         (''$version'', VNum 5), (''data'', VObj [(''$version'', VNum 5)])])"
proof -
  have b: "binding boundExample
     = Bound ((storageAt 5)(''$'' \<mapsto> toJSON recordingEnvironment exampleObject,
                            ''$version'' \<mapsto> VNum 5))"
    by (simp add: boundExample_eq)
  have p: "parsed boundExample = parsed exampleObject"
    by (simp add: boundExample_eq)
  have e: "map_of (events (parsed boundExample))
             (''on'' @ dollar_type (parsed boundExample) @ ''Created'') = Some 10"
    by (simp add: p exampleObject_type exampleObject_events)
  have n: "newInstance boundExample ''a1'' []
             = VObj [(''$id'', VStr ''a1''), (''$type'', VStr ''Account''),
                     (''$version'', VNum 5), (''data'', VObj [(''$version'', VNum 5)])]"
    by (simp add: newInstance_def DOInstance_def p exampleObject_type exampleObject_version)
  have h: "fst (run_handler recordingEnvironment 10 args st) = None" for args st
    by (simp add: recordingEnvironment_def)
  have t: "''on'' @ dollar_type (parsed boundExample) @ ''Created'' = ''onAccountCreated''"
    by (simp add: p exampleObject_type)
  from create_calls_created_handler_once_when_bound
         [OF b e, of recordingEnvironment "''a1''" "[]"]
  have "fst (create recordingEnvironment boundExample ''a1'' [])
          = [HandlerCall ''onAccountCreated'' 10]
        \<and> fst (snd (create recordingEnvironment boundExample ''a1'' []))
          = Returned (VObj [(''$id'', VStr ''a1''), (''$type'', VStr ''Account''),
                         (''$version'', VNum 5), (''data'', VObj [(''$version'', VNum 5)])])"
    unfolding t n h by simp
  with b e show ?thesis by simp
qed

text \<open>
  Claim C8 as stated fails on a definition that has not been bound: the handler is registered,
  \<^verbatim>\<open>create\<close> returns the instance, and nothing has been called.
\<close>

theorem create_unbound_counterexample:
  "map_of (events (parsed exampleObject)) (''on'' @ dollar_type (parsed exampleObject) @ ''Created'')
     = Some 10
   \<and> fst (create recordingEnvironment exampleObject ''a1'' []) = []
   \<and> fst (snd (create recordingEnvironment exampleObject ''a1'' []))
       = Returned (VObj [(''$id'', VStr ''a1''), (''$type'', VStr ''Account''),
                         (''$version'', VNum 5), (''data'', VObj [(''$version'', VNum 5)])])"
  by code_simp


lemma fire_Unbound: "binding d = Unbound \<Longrightarrow> fire env nm payload d = ([], None, d)"
  by (simp add: fire_def split: option.splits)

lemma binding_setInstanceStore_Bound:
  "(\<exists>s. binding (setInstanceStore st d) = Bound s) = (\<exists>s. binding d = Bound s)"
  by (cases "binding d") (simp_all add: setInstanceStore_def)

lemma fire_calls_only_when_Bound:
  "fst (fire env nm payload d) \<noteq> [] \<Longrightarrow> \<exists>s. binding d = Bound s"
  by (cases "binding d") (simp_all add: fire_def split: option.splits)

lemma create_calls_only_when_Bound:
  "fst (create env d i dat) \<noteq> [] \<Longrightarrow> \<exists>s. binding d = Bound s"
proof -
  assume a: "fst (create env d i dat) \<noteq> []"
  let ?d = "setInstanceStore ((instanceStore d)(i \<mapsto> getProp (newInstance d i dat) ''data'')) d"
  from a have "fst (fire env (''on'' @ dollar_type (parsed d) @ ''Created'') (newInstance d i dat) ?d) \<noteq> []"
    by (auto simp: create_def split: prod.splits option.splits)
  then have "\<exists>s. binding ?d = Bound s" by (rule fire_calls_only_when_Bound)
  then show ?thesis by (simp only: binding_setInstanceStore_Bound)
qed

lemma put_calls_only_when_Bound:
  "fst (put env d i dat) \<noteq> [] \<Longrightarrow> \<exists>s. binding d = Bound s"
proof -
  assume a: "fst (put env d i dat) \<noteq> []"
  let ?d = "setInstanceStore ((instanceStore d)(i \<mapsto> getProp (newInstance d i dat) ''data'')) d"
  from a have "fst (fire env (''on'' @ dollar_type (parsed d) @ ''Updated'')
             (VObj [(''previous'', (case get d i of None \<Rightarrow> VNull | Some x \<Rightarrow> x)),
                    (''current'', newInstance d i dat)]) ?d) \<noteq> []"
    by (auto simp: put_def split: prod.splits option.splits)
  then have "\<exists>s. binding ?d = Bound s" by (rule fire_calls_only_when_Bound)
  then show ?thesis by (simp only: binding_setInstanceStore_Bound)
qed

lemma delete_calls_only_when_Bound:
  assumes "fst (delete env d i) \<noteq> []"
  shows "\<exists>s. binding d = Bound s"
proof (cases "get d i")
  case None
  with assms show ?thesis by (simp add: delete_def)
next
  case (Some inst)
  let ?d = "setInstanceStore ((instanceStore d)(i := None)) d"
  from assms Some have
    "fst (fire env (''on'' @ dollar_type (parsed d) @ ''Deleted'') inst ?d) \<noteq> []"
    by (auto simp: delete_def split: prod.splits option.splits)
  then have "\<exists>s. binding ?d = Bound s" by (rule fire_calls_only_when_Bound)
  then show ?thesis by (simp only: binding_setInstanceStore_Bound)
qed

lemma bind_sets_context: "\<exists>s. binding (snd (snd (bind env d storage))) = Bound s"
  by (auto simp: bind_def checkMigrations_def split: prod.splits option.splits binding.splits)

text \<open>
  Claim C10, as amended. On a definition with no storage and no context, \<^verbatim>\<open>create\<close>,
  \<^verbatim>\<open>put\<close> and \<^verbatim>\<open>delete\<close> return, work on the in-memory map and call no handler. An
  operation calls a handler only when the context exists; \<^verbatim>\<open>bind\<close> creates the context
  whether it returns or throws; and with the context the three operations call the handlers
  registered for them (\<^verbatim>\<open>delete\<close> when the instance exists).
\<close>

theorem handlers_fire_only_with_the_context_of_bind:
  "(binding d = Unbound \<longrightarrow>
      create env d i dat =
        ([], Returned (newInstance d i dat),
         d\<lparr>memoryInstances := (memoryInstances d)(i \<mapsto> getProp (newInstance d i dat) ''data'')\<rparr>)
      \<and> put env d i dat =
        ([], Returned (newInstance d i dat),
         d\<lparr>memoryInstances := (memoryInstances d)(i \<mapsto> getProp (newInstance d i dat) ''data'')\<rparr>)
      \<and> delete env d i =
        (if get d i = None then ([], Returned False, d)
         else ([], Returned True, d\<lparr>memoryInstances := (memoryInstances d)(i := None)\<rparr>)))
   \<and> (fst (create env d i dat) \<noteq> [] \<or> fst (put env d i dat) \<noteq> [] \<or> fst (delete env d i) \<noteq> []
        \<longrightarrow> (\<exists>s. binding d = Bound s))
   \<and> (\<exists>s. binding (snd (snd (bind env d storage))) = Bound s)
   \<and> (\<forall>s f. binding d = Bound s
          \<and> map_of (events (parsed d)) (''on'' @ dollar_type (parsed d) @ ''Created'') = Some f
        \<longrightarrow> fst (create env d i dat)
              = [HandlerCall (''on'' @ dollar_type (parsed d) @ ''Created'') f])
   \<and> (\<forall>s f. binding d = Bound s
          \<and> map_of (events (parsed d)) (''on'' @ dollar_type (parsed d) @ ''Updated'') = Some f
        \<longrightarrow> fst (put env d i dat)
              = [HandlerCall (''on'' @ dollar_type (parsed d) @ ''Updated'') f])
   \<and> (\<forall>s f. binding d = Bound s \<and> get d i \<noteq> None
          \<and> map_of (events (parsed d)) (''on'' @ dollar_type (parsed d) @ ''Deleted'') = Some f
        \<longrightarrow> fst (delete env d i)
              = [HandlerCall (''on'' @ dollar_type (parsed d) @ ''Deleted'') f])"
proof (intro conjI impI allI)
  assume u: "binding d = Unbound"
  then show "create env d i dat =
        ([], Returned (newInstance d i dat),
         d\<lparr>memoryInstances := (memoryInstances d)(i \<mapsto> getProp (newInstance d i dat) ''data'')\<rparr>)"
    by (simp add: create_def fire_Unbound setInstanceStore_def instanceStore_def)
  from u show "put env d i dat =
        ([], Returned (newInstance d i dat),
         d\<lparr>memoryInstances := (memoryInstances d)(i \<mapsto> getProp (newInstance d i dat) ''data'')\<rparr>)"
    by (simp add: put_def fire_Unbound setInstanceStore_def instanceStore_def)
  from u show "delete env d i =
        (if get d i = None then ([], Returned False, d)
         else ([], Returned True, d\<lparr>memoryInstances := (memoryInstances d)(i := None)\<rparr>))"
    by (auto simp: delete_def fire_Unbound setInstanceStore_def instanceStore_def)
next
  assume "fst (create env d i dat) \<noteq> [] \<or> fst (put env d i dat) \<noteq> [] \<or> fst (delete env d i) \<noteq> []"
  then show "\<exists>s. binding d = Bound s"
    using create_calls_only_when_Bound put_calls_only_when_Bound delete_calls_only_when_Bound
    by blast
next
  show "\<exists>s. binding (snd (snd (bind env d storage))) = Bound s"
    by (rule bind_sets_context)
next
  fix s f
  assume "binding d = Bound s
          \<and> map_of (events (parsed d)) (''on'' @ dollar_type (parsed d) @ ''Created'') = Some f"
  then show "fst (create env d i dat)
              = [HandlerCall (''on'' @ dollar_type (parsed d) @ ''Created'') f]"
    by (simp add: create_def fire_def setInstanceStore_def instanceStore_def
          split: prod.splits option.splits)
next
  fix s f
  assume "binding d = Bound s
          \<and> map_of (events (parsed d)) (''on'' @ dollar_type (parsed d) @ ''Updated'') = Some f"
  then show "fst (put env d i dat)
              = [HandlerCall (''on'' @ dollar_type (parsed d) @ ''Updated'') f]"
    by (simp add: put_def fire_def setInstanceStore_def instanceStore_def
          split: prod.splits option.splits)
next
  fix s f
  assume "binding d = Bound s \<and> get d i \<noteq> None
          \<and> map_of (events (parsed d)) (''on'' @ dollar_type (parsed d) @ ''Deleted'') = Some f"
  then show "fst (delete env d i)
              = [HandlerCall (''on'' @ dollar_type (parsed d) @ ''Deleted'') f]"
    by (auto simp: delete_def fire_def setInstanceStore_def instanceStore_def
          split: prod.splits option.splits)
qed

text \<open>
  Claim C10 as stated fails in its last part: handlers are called after a \<^verbatim>\<open>bind\<close> that
  did not succeed. The migration to version 4 throws, \<^verbatim>\<open>bind\<close> throws, and a later
  \<^verbatim>\<open>create\<close> calls the handler.
\<close>

theorem handlers_after_failed_bind_counterexample:
  "fst (snd (bind failingEnvironment exampleObject (storageAt 1)))
     = Threw (Error ''migration 4 failed'')
   \<and> fst (create failingEnvironment
            (snd (snd (bind failingEnvironment exampleObject (storageAt 1)))) ''a1'' [])
     = [HandlerCall ''onAccountCreated'' 10]"
  by code_simp


lemma exampleObject_binding: "binding exampleObject = Unbound"
  by (simp add: exampleObject_def new_DigitalObjectDefinition_def split: prod.splits)

theorem handlers_fire_only_with_the_context_of_bind_witness:
  "binding exampleObject = Unbound
   \<and> create recordingEnvironment exampleObject ''a1'' [] =
        ([], Returned (newInstance exampleObject ''a1'' []),
         exampleObject\<lparr>memoryInstances :=
           (memoryInstances exampleObject)(''a1'' \<mapsto> getProp (newInstance exampleObject ''a1'' []) ''data'')\<rparr>)
   \<and> fst (put recordingEnvironment exampleObject ''a1'' []) = []
   \<and> fst (delete recordingEnvironment exampleObject ''a1'') = []
   \<and> binding storedExample = Bound (Map.empty(''a1'' \<mapsto> VObj [(''n'', VNum 1)]))
   \<and> get storedExample ''a1'' \<noteq> None
   \<and> fst (create recordingEnvironment storedExample ''a1'' []) = [HandlerCall ''onAccountCreated'' 10]
   \<and> fst (put recordingEnvironment storedExample ''a1'' []) = [HandlerCall ''onAccountUpdated'' 11]
   \<and> fst (delete recordingEnvironment storedExample ''a1'') = [HandlerCall ''onAccountDeleted'' 12]"
proof -
  note u = handlers_fire_only_with_the_context_of_bind
             [where d = exampleObject and env = recordingEnvironment and i = "''a1''" and dat = "[]"]
  note b = handlers_fire_only_with_the_context_of_bind
             [where d = storedExample and env = recordingEnvironment and i = "''a1''" and dat = "[]"]
  have p: "parsed storedExample = parsed exampleObject"
    by (simp add: storedExample_def)
  have bb: "binding storedExample = Bound (Map.empty(''a1'' \<mapsto> VObj [(''n'', VNum 1)]))"
    by (simp add: storedExample_def)
  have g: "get storedExample ''a1'' \<noteq> None"
    by (simp add: get_def instanceStore_def bb truthy_def)
  have c: "fst (create recordingEnvironment storedExample ''a1'' []) = [HandlerCall ''onAccountCreated'' 10]"
    using b bb by (simp add: p exampleObject_type exampleObject_events)
  have q: "fst (put recordingEnvironment storedExample ''a1'' []) = [HandlerCall ''onAccountUpdated'' 11]"
    using b bb by (simp add: p exampleObject_type exampleObject_events)
  have r: "fst (delete recordingEnvironment storedExample ''a1'') = [HandlerCall ''onAccountDeleted'' 12]"
    using b bb g by (simp add: p exampleObject_type exampleObject_events)
  from u exampleObject_binding have
    "create recordingEnvironment exampleObject ''a1'' [] =
        ([], Returned (newInstance exampleObject ''a1'' []),
         exampleObject\<lparr>memoryInstances :=
           (memoryInstances exampleObject)(''a1'' \<mapsto> getProp (newInstance exampleObject ''a1'' []) ''data'')\<rparr>)"
    and "fst (put recordingEnvironment exampleObject ''a1'' []) = []"
    and "fst (delete recordingEnvironment exampleObject ''a1'') = []"
    by (simp_all split: if_splits)
  with exampleObject_binding bb g c q r show ?thesis by simp
qed

section \<open>\<^verbatim>\<open>call\<close>\<close>

text \<open>
  A code function is called with the arguments, and a name with no entry is not found. A
  generative function that \<^verbatim>\<open>parseDefinition\<close> has registered is never deferred: \<^verbatim>\<open>call\<close>
  throws for every one of them.
\<close>

lemma call_code_function:
  "map_of (functions' (parsed d)) nm = Some (VFun f) \<Longrightarrow>
   call env d nm args = apply_function env f args"
  by (simp add: call_def truthy_def)

lemma call_unregistered:
  "map_of (functions' (parsed d)) nm = None \<Longrightarrow> call env d nm args = Threw (notFound nm)"
  by (simp add: call_def)

lemma functions_addField [simp]: "functions' (addField k f pd) = functions' pd"
  by (simp add: addField_def split: option.splits)

lemma storedFunctions_addField [simp]: "storedFunctions (addField k f pd) = storedFunctions pd"
  by (simp add: storedFunctions_def)

lemma list_all_update:
  "P v \<Longrightarrow> list_all P (map snd al) \<Longrightarrow> list_all P (map snd (AList.update k v al))"
  by (induction al) auto

lemma storedFunctions_update:
  "storedFunction v \<Longrightarrow> storedFunctions pd \<Longrightarrow>
   storedFunctions (pd\<lparr>functions' := AList.update k v (functions' pd)\<rparr>)"
  by (simp add: storedFunctions_def list_all_update)

lemma storedFunction_forms [simp]:
  "storedFunction (VFun f)" "storedFunction (stringFunction s e)"
  "storedFunction (legacyFunction v li)" "storedFunction (schemaFunction k v e)"
  by (simp_all add: storedFunction_def stringFunction_def legacyFunction_def schemaFunction_def
        hasKey_def)

lemma parseValueEntry_storedFunctions:
  "storedFunctions pd \<Longrightarrow> storedFunctions (fst (parseValueEntry k v (pd, li)))"
  by (auto simp: parseValueEntry_def storedFunctions_update
        split: jsval.splits list.splits prod.splits bool.splits)

lemma storedFunctions_other_updates [simp]:
  "storedFunctions (pd\<lparr>migrations := m\<rparr>) = storedFunctions pd"
  "storedFunctions (pd\<lparr>events := ev\<rparr>) = storedFunctions pd"
  "storedFunctions (pd\<lparr>schedules := sc\<rparr>) = storedFunctions pd"
  "storedFunctions (pd\<lparr>crons := cr\<rparr>) = storedFunctions pd"
  by (simp_all add: storedFunctions_def)

lemma parseEntry_storedFunctions:
  "storedFunctions (fst st) \<Longrightarrow> storedFunctions (fst (parseEntry k v st))"
  by (cases st)
     (auto simp: parseEntry_def parseValueEntry_storedFunctions storedFunctions_update
           split: jsval.splits option.splits prod.splits)

lemma parseEntries_storedFunctions:
  "storedFunctions (fst st) \<Longrightarrow> storedFunctions (fst (parseEntries kvs st))"
  by (induction kvs arbitrary: st) (simp_all add: parseEntry_storedFunctions)

lemma initialParsed_storedFunctions: "storedFunctions (initialParsed def)"
  by (simp add: storedFunctions_def initialParsed_def)

lemma parseDefinition_storedFunctions: "storedFunctions (fst (parseDefinition def li))"
  unfolding parseDefinition_def
  by (rule parseEntries_storedFunctions) (simp add: initialParsed_storedFunctions)

lemma call_never_defers:
  assumes "parsed d = fst (parseDefinition def li)"
    and "map_of (functions' (parsed d)) nm = Some (VObj kvs)"
  shows "call env d nm args = Threw (unknownFunctionType nm)"
proof -
  from assms(2) have "(nm, VObj kvs) \<in> set (functions' (parsed d))"
    by (rule map_of_SomeD)
  moreover have "storedFunctions (parsed d)"
    using assms(1) parseDefinition_storedFunctions by simp
  ultimately have "storedFunction (VObj kvs)"
    by (force simp: storedFunctions_def list_all_iff)
  with assms(2) show ?thesis
    by (simp add: call_def storedFunction_def truthy_def)
qed

text \<open>
  Claim C4 at the failing input: a generative function given as a text with a placeholder, and
  one given in the legacy form \<^verbatim>\<open>{ mdx }\<close>, are registered as objects with the member
  \<^verbatim>\<open>prompt\<close> and no member \<^verbatim>\<open>mdx\<close>; \<^verbatim>\<open>call\<close> tests for \<^verbatim>\<open>mdx\<close> and throws
  \<^verbatim>\<open>Unknown function type\<close> instead of returning the deferred descriptor.
\<close>

theorem call_of_generative_function_throws:
  "map_of (functions' (parsed exampleObject)) ''pitch''
     = Some (VObj [(''prompt'', VStr ''Generate pitch for {name}''), (''variables'', VArr [])])
   \<and> call recordingEnvironment exampleObject ''pitch'' [VStr ''Acme'']
     = Threw (unknownFunctionType ''pitch'')
   \<and> map_of (functions' (parsed exampleObject)) ''summary''
     = Some (VObj [(''prompt'', VStr ''Summarize {name}''), (''schema'', VUndef),
                   (''model'', VUndef), (''variables'', VArr [VStr ''name''])])
   \<and> call recordingEnvironment exampleObject ''summary'' []
     = Threw (unknownFunctionType ''summary'')"
  by code_simp

section \<open>Cascades, enums and type suffixes\<close>

lemma rstrip_Cons:
  "rstrip (c # p) = (if list_all isSpace (c # p) then [] else c # rstrip p)"
proof (cases "list_all isSpace p")
  case True
  then have "dropWhile isSpace (rev p) = []" by (simp add: list_all_iff)
  then show ?thesis using True by (simp add: rstrip_def dropWhile_append)
next
  case False
  then have "dropWhile isSpace (rev p) \<noteq> []" by (auto simp: list_all_iff dropWhile_eq_Nil_conv)
  then show ?thesis using False by (simp add: rstrip_def dropWhile_append)
qed

lemma lstrip_rstrip: "dropWhile isSpace (rstrip p) = rstrip (dropWhile isSpace p)"
proof (induction p)
  case Nil
  then show ?case by (simp add: rstrip_def)
next
  case (Cons c q)
  show ?case
  proof (cases "isSpace c")
    case True
    show ?thesis
    proof (cases "list_all isSpace q")
      case True
      then have d: "dropWhile isSpace q = []" by (simp add: list_all_iff)
      have r0: "rstrip [] = []" by (simp add: rstrip_def)
      have "rstrip (c # q) = []" using True \<open>isSpace c\<close> by (simp add: rstrip_Cons)
      moreover have "dropWhile isSpace (c # q) = []" using d \<open>isSpace c\<close> by simp
      ultimately show ?thesis by (simp only: r0 dropWhile.simps)
    next
      case False
      with True Cons show ?thesis by (simp add: rstrip_Cons)
    qed
  next
    case False
    then show ?thesis by (simp add: rstrip_Cons)
  qed
qed

lemma rstrip_idem: "rstrip (rstrip p) = rstrip p"
proof (cases "dropWhile isSpace (rev p)")
  case Nil
  then show ?thesis by (simp add: rstrip_def)
next
  case (Cons a list)
  then have "\<not> isSpace a" by (metis dropWhile_eq_Cons_conv)
  with Cons show ?thesis by (simp add: rstrip_def)
qed

lemma trim_rstrip: "trim (rstrip p) = trim p"
proof -
  have "trim (rstrip p) = rstrip (dropWhile isSpace (rstrip p))" by (simp add: trim_def rstrip_def)
  also have "\<dots> = rstrip (rstrip (dropWhile isSpace p))" by (simp add: lstrip_rstrip)
  also have "\<dots> = rstrip (dropWhile isSpace p)" by (rule rstrip_idem)
  finally show ?thesis by (simp add: trim_def rstrip_def)
qed

lemma match_target_Some:
  assumes "rest \<noteq> []" and "\<not> list_ex isLineTerminator rest"
  shows "\<exists>t. match_target rest = Some t"
proof -
  have "drop 0 rest \<in> set (map (\<lambda>j. drop j rest) (rev [0 ..< Suc (length (takeWhile isSpace rest))]))"
    by (simp del: drop_0 upt_Suc) force
  with assms have "find (\<lambda>t. t \<noteq> [] \<and> \<not> list_ex isLineTerminator t)
       (map (\<lambda>j. drop j rest) (rev [0 ..< Suc (length (takeWhile isSpace rest))])) \<noteq> None"
    unfolding find_None_iff by (metis drop_0)
  then show ?thesis by (auto simp: match_target_def)
qed

lemma match_operator_None:
  "\<not> list_ex (startsWith s) ops \<Longrightarrow> match_operator ops s = None"
  by (induction ops) auto

lemma match_operator_Some:
  "opr \<in> set ops \<Longrightarrow> startsWith s opr \<Longrightarrow> match_target (drop (length opr) s) \<noteq> None \<Longrightarrow>
   match_operator ops s \<noteq> None"
  by (induction ops) (auto split: option.splits)


lemma operator_shape:
  "opr \<in> set CASCADE_OPERATORS \<Longrightarrow> opr \<noteq> [] \<and> \<not> isSpace (hd opr)
     \<and> (hd opr = CHR ''<'' \<or> hd opr = CHR ''~'' \<or> hd opr = CHR ''-'')"
  by (auto simp: CASCADE_OPERATORS_def isSpace_def)

lemma operatorAt_hd:
  "operatorAt s \<Longrightarrow> s \<noteq> [] \<and> (hd s = CHR ''<'' \<or> hd s = CHR ''~'' \<or> hd s = CHR ''-'')"
  by (cases s) (auto simp: operatorAt_def CASCADE_OPERATORS_def startsWith_def)

lemma match_at_operator:
  assumes "opr \<in> set CASCADE_OPERATORS" "rest \<noteq> []" "\<not> list_ex isLineTerminator rest"
    and "list_all isSpace ws"
  shows "\<exists>x t. match_operator CASCADE_OPERATORS (dropWhile isSpace (ws @ opr @ rest)) = Some (x, t)"
proof -
  have "opr \<noteq> []" and "\<not> isSpace (hd opr)"
    using operator_shape [OF assms(1)] by simp_all
  then obtain c cs where opr: "opr = c # cs" and c: "\<not> isSpace c"
    by (auto simp: neq_Nil_conv)
  from assms(4) have "dropWhile isSpace (ws @ opr @ rest) = opr @ rest"
    using opr c by (simp add: list_all_iff dropWhile_append)
  moreover have "startsWith (opr @ rest) opr" by (simp add: startsWith_def)
  moreover have "match_target (drop (length opr) (opr @ rest)) \<noteq> None"
    using match_target_Some [OF assms(2,3)] by auto
  ultimately have "match_operator CASCADE_OPERATORS (dropWhile isSpace (ws @ opr @ rest)) \<noteq> None"
    using match_operator_Some [OF assms(1)] by simp
  then show ?thesis by auto
qed

lemma match_cascade_from_first_operator:
  assumes "opr \<in> set CASCADE_OPERATORS" "rest \<noteq> []" "\<not> list_ex isLineTerminator rest"
  shows "\<not> list_ex isLineTerminator pre \<Longrightarrow>
         \<forall>k<length pre. \<not> operatorAt (drop k (pre @ opr @ rest)) \<Longrightarrow>
         \<exists>x t. match_cascade_from acc (pre @ opr @ rest) = Some (acc @ rstrip pre, x, t)"
proof (induction pre arbitrary: acc)
  case Nil
  have "opr \<noteq> []"
    using operator_shape [OF assms(1)] by simp
  then obtain c cs where opr: "opr = c # cs"
    by (auto simp: neq_Nil_conv)
  from match_at_operator [OF assms, of "[]"] obtain x t where
    "match_operator CASCADE_OPERATORS (dropWhile isSpace (opr @ rest)) = Some (x, t)" by auto
  then show ?case using opr by (auto simp: rstrip_def)
next
  case (Cons c pre)
  show ?case
  proof (cases "list_all isSpace (c # pre)")
    case True
    from match_at_operator [OF assms True] obtain x t where
      "match_operator CASCADE_OPERATORS (dropWhile isSpace ((c # pre) @ opr @ rest)) = Some (x, t)"
      by auto
    then show ?thesis using True by (auto simp: rstrip_Cons)
  next
    case False
    let ?s = "(c # pre) @ opr @ rest"
    let ?k = "length (takeWhile isSpace (c # pre))"
    from False have "\<exists>x\<in>set (c # pre). \<not> isSpace x" by (simp add: list_all_iff)
    then obtain x where "x \<in> set (c # pre)" and "\<not> isSpace x" by blast
    then have tw: "takeWhile isSpace ((c # pre) @ (opr @ rest)) = takeWhile isSpace (c # pre)"
      by (rule takeWhile_append1)
    have "dropWhile isSpace (c # pre) \<noteq> []"
      using \<open>x \<in> set (c # pre)\<close> \<open>\<not> isSpace x\<close> unfolding dropWhile_eq_Nil_conv by blast
    moreover have "length (takeWhile isSpace (c # pre)) + length (dropWhile isSpace (c # pre))
                     = length (c # pre)"
      using takeWhile_dropWhile_id [of isSpace "c # pre"] length_append
      by (metis (no_types))
    ultimately have k: "?k < length (c # pre)"
      by (cases "dropWhile isSpace (c # pre)") simp_all
    have "dropWhile isSpace ?s = drop (length (takeWhile isSpace ?s)) ?s"
      by (rule dropWhile_eq_drop)
    then have "dropWhile isSpace ?s = drop ?k ?s"
      by (simp only: tw append_assoc)
    moreover from Cons.prems(2) k have "\<not> operatorAt (drop ?k ?s)" by blast
    ultimately have none: "match_operator CASCADE_OPERATORS (dropWhile isSpace ?s) = None"
      by (simp add: match_operator_None operatorAt_def)
    from Cons.prems(1) have c: "\<not> isLineTerminator c" and pre: "\<not> list_ex isLineTerminator pre"
      by simp_all
    have "\<forall>k<length pre. \<not> operatorAt (drop k (pre @ opr @ rest))"
    proof (intro allI impI)
      fix k assume "k < length pre"
      then have "Suc k < length (c # pre)" by simp
      with Cons.prems(2) have "\<not> operatorAt (drop (Suc k) ((c # pre) @ opr @ rest))" by blast
      then show "\<not> operatorAt (drop k (pre @ opr @ rest))" by simp
    qed
    from Cons.IH [OF pre this, of "acc @ [c]"] obtain x t where
      "match_cascade_from (acc @ [c]) (pre @ opr @ rest) = Some ((acc @ [c]) @ rstrip pre, x, t)"
      by auto
    with none c False show ?thesis by (simp add: rstrip_Cons)
  qed
qed


lemma CASCADE_REGEX_first_operator:
  assumes "s = pre @ opr @ rest" "opr \<in> set CASCADE_OPERATORS" "rest \<noteq> []"
    and "\<not> list_ex isLineTerminator s"
    and "\<forall>k<length pre. \<not> operatorAt (drop k s)"
  shows "\<exists>x t. CASCADE_REGEX s = Some (rstrip pre, x, t)"
proof -
  from assms(1,4) have "\<not> list_ex isLineTerminator rest" "\<not> list_ex isLineTerminator pre"
    by (simp_all add: list_ex_iff)
  from match_cascade_from_first_operator [OF assms(2,3) this, of "[]"] assms(1,5)
  show ?thesis by (simp add: CASCADE_REGEX_def)
qed

lemma parseCascade_of_match:
  assumes "CASCADE_REGEX (parseValue v) = Some (g1, x, t)"
  shows "\<exists>c. snd (parseCascade v) = Some c
            \<and> generationPrompt c = (if trim g1 = [] then None else Some (trim g1))
            \<and> isGenerative c = (trim g1 \<noteq> [])"
  using assms by (simp add: parseCascade_def Let_def)

lemma find_Some_in: "find P xs = Some x \<Longrightarrow> x \<in> set xs \<and> P x"
  by (induction xs) (auto split: if_splits)

lemma match_target_SomeD:
  assumes "match_target remainder = Some r"
  shows "\<exists>j. r = drop j remainder \<and> list_all isSpace (take j remainder) \<and> r \<noteq> []
             \<and> \<not> list_ex isLineTerminator r"
proof -
  from assms have "r \<in> set (map (\<lambda>j. drop j remainder) (rev [0 ..< Suc (length (takeWhile isSpace remainder))]))"
    and r: "r \<noteq> [] \<and> \<not> list_ex isLineTerminator r"
    unfolding match_target_def by (auto dest!: find_Some_in simp del: upt_Suc)
  then obtain j where j: "j \<le> length (takeWhile isSpace remainder)" and rj: "r = drop j remainder"
    by (auto simp del: upt_Suc simp: less_Suc_eq_le)
  have "take j remainder = take j (takeWhile isSpace remainder)"
    using j by (metis append_eq_conv_conj takeWhile_dropWhile_id take_append min.absorb2 take_take length_take)
  then have "set (take j remainder) \<subseteq> set (takeWhile isSpace remainder)"
    by (metis set_take_subset)
  then have "list_all isSpace (take j remainder)"
    by (auto simp: list_all_iff dest: set_takeWhileD)
  with rj r show ?thesis by blast
qed

lemma ROUTE_PARAM_REGEX_SomeD:
  assumes "ROUTE_PARAM_REGEX v = Some (n, r)"
  shows "\<exists>mid. v = CHR '':'' # n @ mid @ r \<and> list_all isWord n \<and> list_all isSpace mid"
proof -
  from assms obtain cs where v: "v = CHR '':'' # cs"
    by (cases v) (auto simp: ROUTE_PARAM_REGEX_def split: if_splits)
  from assms v obtain w remainder where dw: "dropWhile isWord cs = w # remainder" and w: "isSpace w"
    and n: "n = takeWhile isWord cs" and mt: "match_target remainder = Some r"
    by (auto simp: ROUTE_PARAM_REGEX_def split: if_splits list.splits)
  from match_target_SomeD [OF mt] obtain j where
    j: "r = drop j remainder" "list_all isSpace (take j remainder)" by blast
  have "cs = takeWhile isWord cs @ dropWhile isWord cs" by simp
  then have "cs = n @ (w # take j remainder) @ r"
    using dw n j(1) by simp
  moreover have "list_all isWord n" using n by (auto simp: list_all_iff dest: set_takeWhileD)
  moreover have "list_all isSpace (w # take j remainder)" using w j(2) by simp
  ultimately show ?thesis using v by blast
qed


lemma punctuation_not_word_or_space:
  "\<not> isWord (CHR ''|'')" "\<not> isSpace (CHR ''|'')" "\<not> isWord (CHR ''<'')" "\<not> isSpace (CHR ''<'')"
  "\<not> isWord (CHR ''~'')" "\<not> isSpace (CHR ''~'')" "\<not> isWord (CHR ''-'')" "\<not> isSpace (CHR ''-'')"
  "\<not> isWord (CHR ''('')" "\<not> isSpace (CHR ''('')" "\<not> isWord (CHR '':'')" "\<not> isSpace (CHR '':'')"
  by code_simp+

lemma operatorAt_drop_prefix:
  assumes "list_all (\<lambda>c. c = CHR '':'' \<or> isWord c \<or> isSpace c) p" "k < length p"
  shows "\<not> operatorAt (drop k (p @ s))"
proof
  assume "operatorAt (drop k (p @ s))"
  then have h: "hd (drop k (p @ s)) = CHR ''<'' \<or> hd (drop k (p @ s)) = CHR ''~''
                 \<or> hd (drop k (p @ s)) = CHR ''-''"
    using operatorAt_hd by blast
  have "hd (drop k (p @ s)) = p ! k"
    using assms(2) by (simp add: hd_drop_conv_nth nth_append)
  moreover have "p ! k = CHR '':'' \<or> isWord (p ! k) \<or> isSpace (p ! k)"
    using assms by (simp add: list_all_length)
  ultimately show False
    using h punctuation_not_word_or_space by auto
qed

lemma CASCADE_REGEX_whole:
  assumes "\<not> list_ex isLineTerminator v"
    and "parseValue v = pre @ opr @ rest"
    and "opr \<in> set CASCADE_OPERATORS" and "rest \<noteq> []"
    and "\<forall>k<length pre. \<not> operatorAt (drop k (parseValue v))"
  shows "CASCADE_REGEX v \<noteq> None"
proof (cases "ROUTE_PARAM_REGEX v")
  case None
  then have "parseValue v = v" by (simp add: parseValue_def)
  with CASCADE_REGEX_first_operator [OF _ assms(3,4), of v pre] assms(1,2,5)
  show ?thesis by auto
next
  case (Some a)
  obtain n r where a: "a = (n, r)" by (cases a)
  with Some have pv: "parseValue v = r" by (simp add: parseValue_def)
  from ROUTE_PARAM_REGEX_SomeD [of v n r] Some a obtain mid where
    v: "v = CHR '':'' # n @ mid @ r" and n: "list_all isWord n" and mid: "list_all isSpace mid"
    by auto
  let ?p = "CHR '':'' # n @ mid"
  have p: "list_all (\<lambda>c. c = CHR '':'' \<or> isWord c \<or> isSpace c) ?p"
    using n mid by (auto simp: list_all_iff)
  have v': "v = (?p @ pre) @ opr @ rest"
    using v pv assms(2) by simp
  have "\<forall>k<length (?p @ pre). \<not> operatorAt (drop k v)"
  proof (intro allI impI)
    fix k assume k: "k < length (?p @ pre)"
    show "\<not> operatorAt (drop k v)"
    proof (cases "k < length ?p")
      case True
      from operatorAt_drop_prefix [OF p True, of r] v show ?thesis by simp
    next
      case False
      have "v = ?p @ r" using v by simp
      then have "drop k v = drop k ?p @ drop (k - length ?p) r"
        by (simp only: drop_append)
      moreover have "drop k ?p = []" using False by simp
      ultimately have "drop k v = drop (k - length ?p) (parseValue v)"
        using pv by simp
      moreover from False k have "k - length ?p < length pre" by auto
      ultimately show ?thesis using assms(5) by simp
    qed
  qed
  with CASCADE_REGEX_first_operator [OF v' assms(3,4) assms(1)]
  show ?thesis by auto
qed

lemma parseValue_no_terminator:
  assumes "\<not> list_ex isLineTerminator v"
  shows "\<not> list_ex isLineTerminator (parseValue v)"
proof (cases "ROUTE_PARAM_REGEX v")
  case None
  with assms show ?thesis by (simp add: parseValue_def)
next
  case (Some a)
  obtain n r where a: "a = (n, r)" by (cases a)
  from ROUTE_PARAM_REGEX_SomeD [of v n r] Some a obtain mid where
    "v = CHR '':'' # n @ mid @ r" by auto
  with assms have "\<not> list_ex isLineTerminator r" by (auto simp: list_ex_iff)
  with Some a show ?thesis by (simp add: parseValue_def)
qed

text \<open>
  Claim C1, as amended. The text \<open>v\<close> of a field has no line terminator; after its route
  parameter, if it has one, it is \<open>pre\<close>, a cascade operator and a non-empty rest, and no
  operator starts inside \<open>pre\<close>. Then the field is parsed as a cascade, also when \<open>v\<close>
  has placeholders: \<^verbatim>\<open>parseDefinition\<close> stores it under \<^verbatim>\<open>fields\<close> and \<^verbatim>\<open>cascades\<close> and
  registers no function. The description taken from it is \<open>pre\<close> without its surrounding
  white space; the cascade is generative, with that description as its generation prompt,
  exactly when that description is not empty.
\<close>

theorem cascade_string_is_link_with_trimmed_description:
  assumes "\<not> list_ex isLineTerminator v"
    and "parseValue v = pre @ opr @ rest"
    and "opr \<in> set CASCADE_OPERATORS" and "rest \<noteq> []"
    and "list_all (\<lambda>k. \<not> operatorAt (drop k (parseValue v))) [0 ..< length pre]"
    and "\<not> startsWith key ''$''"
  shows "\<exists>c. cascade (fst (parseField key (VStr v) li)) = Some c
            \<and> generationPrompt c = (if trim pre = [] then None else Some (trim pre))
            \<and> isGenerative c = (trim pre \<noteq> [])
            \<and> fst (parseEntry key (VStr v) (pd, li))
                = pd\<lparr>fields' := AList.update key (fst (parseField key (VStr v) li)) (fields' pd),
                      cascades := AList.update key c (cascades pd)\<rparr>"
proof -
  from assms(5) have first: "\<forall>k<length pre. \<not> operatorAt (drop k (parseValue v))"
    by (simp add: list_all_iff)
  from CASCADE_REGEX_first_operator
         [OF assms(2,3,4) parseValue_no_terminator [OF assms(1)] first]
  obtain x t where "CASCADE_REGEX (parseValue v) = Some (rstrip pre, x, t)" by blast
  from parseCascade_of_match [OF this] obtain c where
    c: "snd (parseCascade v) = Some c"
       "generationPrompt c = (if trim pre = [] then None else Some (trim pre))"
       "isGenerative c = (trim pre \<noteq> [])"
    by (auto simp: trim_rstrip)
  have f: "fst (parseField key (VStr v) li) = parseStringField key v" for li by simp
  from c(1) have cf: "cascade (parseStringField key v) = Some c"
    by (cases "parseCascade v") (simp add: parseStringField_def)
  have whole: "CASCADE_REGEX v \<noteq> None"
    using CASCADE_REGEX_whole [OF assms(1,2,3,4) first] .
  have "fst (parseEntry key (VStr v) (pd, li)) = addField key (parseStringField key v) pd"
    using assms(6) whole by (cases "isGenerativeString v") (auto simp: parseEntry_def)
  with cf have "fst (parseEntry key (VStr v) (pd, li))
                = pd\<lparr>fields' := AList.update key (parseStringField key v) (fields' pd),
                      cascades := AList.update key c (cascades pd)\<rparr>"
    by (simp add: addField_def)
  with c cf f show ?thesis by simp
qed

theorem cascade_string_is_link_with_trimmed_description_witness:
  "\<not> list_ex isLineTerminator ''Who has {problem}? ->ICP''
   \<and> parseValue ''Who has {problem}? ->ICP'' = ''Who has {problem}? '' @ ''->'' @ ''ICP''
   \<and> ''->'' \<in> set CASCADE_OPERATORS \<and> ''ICP'' \<noteq> []
   \<and> list_all (\<lambda>k. \<not> operatorAt (drop k (parseValue ''Who has {problem}? ->ICP'')))
         [0 ..< length ''Who has {problem}? '']
   \<and> \<not> startsWith ''icps'' ''$''
   \<and> trim ''Who has {problem}? '' = ''Who has {problem}?''
   \<and> (\<exists>c. cascade (fst (parseField ''icps'' (VStr ''Who has {problem}? ->ICP'') 0)) = Some c
          \<and> generationPrompt c = Some ''Who has {problem}?''
          \<and> isGenerative c = True
          \<and> fst (parseEntry ''icps'' (VStr ''Who has {problem}? ->ICP'') (emptyParsed, 0))
              = emptyParsed\<lparr>fields' := AList.update ''icps''
                                 (fst (parseField ''icps'' (VStr ''Who has {problem}? ->ICP'') 0))
                                 (fields' emptyParsed),
                              cascades := AList.update ''icps'' c (cascades emptyParsed)\<rparr>)
   \<and> parseValue '':tenant ->Workspace'' = [] @ ''->'' @ ''Workspace''
   \<and> (\<exists>c. cascade (fst (parseField ''workspace'' (VStr '':tenant ->Workspace'') 0)) = Some c
          \<and> generationPrompt c = None
          \<and> isGenerative c = False)"
proof -
  have h1: "\<not> list_ex isLineTerminator ''Who has {problem}? ->ICP''" by code_simp
  have h2: "parseValue ''Who has {problem}? ->ICP'' = ''Who has {problem}? '' @ ''->'' @ ''ICP''"
    by code_simp
  have h3: "''->'' \<in> set CASCADE_OPERATORS" by code_simp
  have h4: "''ICP'' \<noteq> []" by simp
  have h5: "list_all (\<lambda>k. \<not> operatorAt (drop k (parseValue ''Who has {problem}? ->ICP'')))
         [0 ..< length ''Who has {problem}? '']" by code_simp
  have h6: "\<not> startsWith ''icps'' ''$''" by code_simp
  have t: "trim ''Who has {problem}? '' = ''Who has {problem}?''" by code_simp
  have g1: "\<not> list_ex isLineTerminator '':tenant ->Workspace''" by code_simp
  have g2: "parseValue '':tenant ->Workspace'' = [] @ ''->'' @ ''Workspace''" by code_simp
  have g4: "''Workspace'' \<noteq> []" by simp
  have g5: "list_all (\<lambda>k. \<not> operatorAt (drop k (parseValue '':tenant ->Workspace'')))
         [0 ..< length ([] :: string)]" by simp
  have g6: "\<not> startsWith ''workspace'' ''$''" by code_simp
  have t0: "trim [] = []" by code_simp
  from cascade_string_is_link_with_trimmed_description
         [OF h1 h2 h3 h4 h5 h6, of 0 emptyParsed]
  have a: "\<exists>c. cascade (fst (parseField ''icps'' (VStr ''Who has {problem}? ->ICP'') 0)) = Some c
          \<and> generationPrompt c = Some ''Who has {problem}?''
          \<and> isGenerative c = True
          \<and> fst (parseEntry ''icps'' (VStr ''Who has {problem}? ->ICP'') (emptyParsed, 0))
              = emptyParsed\<lparr>fields' := AList.update ''icps''
                                 (fst (parseField ''icps'' (VStr ''Who has {problem}? ->ICP'') 0))
                                 (fields' emptyParsed),
                              cascades := AList.update ''icps'' c (cascades emptyParsed)\<rparr>"
    unfolding t by simp
  from cascade_string_is_link_with_trimmed_description
         [OF g1 g2 h3 g4 g5 g6, of 0 emptyParsed]
  have b: "\<exists>c. cascade (fst (parseField ''workspace'' (VStr '':tenant ->Workspace'') 0)) = Some c
          \<and> generationPrompt c = None
          \<and> isGenerative c = False"
    unfolding t0 by auto
  from h1 h2 h3 h4 h5 h6 t a g2 b show ?thesis by blast
qed

text \<open>
  Claim C1 as stated fails in three ways. A text with a placeholder and a line feed before
  the operator is no cascade: it is registered as a generative function. The description of
  \<^verbatim>\<open>Who has this problem? ->ICP\<close> is the text before the operator without its last space.
  The text before the operator of \<^verbatim>\<open>:tenant ->Workspace\<close> is not empty, and the cascade is
  not generative: the route parameter is no description.
\<close>

theorem cascade_description_counterexample:
  "CASCADE_REGEX (''Find items for {name}'' @ [CHR 0x0A] @ ''related ->Item'') = None
   \<and> cascade (fst (parseField ''related''
                    (VStr (''Find items for {name}'' @ [CHR 0x0A] @ ''related ->Item'')) 0)) = None
   \<and> map fst (functions' (fst (parseEntry ''related''
                    (VStr (''Find items for {name}'' @ [CHR 0x0A] @ ''related ->Item''))
                    (emptyParsed, 0)))) = [''related'']
   \<and> fields' (fst (parseEntry ''related''
                    (VStr (''Find items for {name}'' @ [CHR 0x0A] @ ''related ->Item''))
                    (emptyParsed, 0))) = []
   \<and> ''Who has this problem? ->ICP'' = ''Who has this problem? '' @ ''->'' @ ''ICP''
   \<and> map_option generationPrompt
        (cascade (fst (parseField ''icps'' (VStr ''Who has this problem? ->ICP'') 0)))
       = Some (Some ''Who has this problem?'')
   \<and> ''Who has this problem?'' \<noteq> ''Who has this problem? ''
   \<and> '':tenant ->Workspace'' = '':tenant '' @ ''->'' @ ''Workspace''
   \<and> map_option isGenerative
        (cascade (fst (parseField ''workspace'' (VStr '':tenant ->Workspace'') 0)))
       = Some False
   \<and> description (fst (parseField ''workspace'' (VStr '':tenant ->Workspace'') 0)) = ''Workspace''"
  by code_simp



text \<open>
  Claim C6 as stated fails on alternatives with a character that is neither a word character
  nor white space: \<^verbatim>\<open>Pre-seed | Seed | Series A\<close> has no cascade operator and no
  placeholder, and is parsed as a plain text field with no enum values.
\<close>

theorem enum_with_punctuation_counterexample:
  "CASCADE_REGEX ''Pre-seed | Seed | Series A'' = None
   \<and> fst (isGenerativeString ''Pre-seed | Seed | Series A'') = False
   \<and> split (CHR ''|'') ''Pre-seed | Seed | Series A'' = [''Pre-seed '', '' Seed '', '' Series A'']
   \<and> fst (parseField ''stage'' (VStr ''Pre-seed | Seed | Series A'') 0)
       = ParsedField ''stage'' ''Pre-seed | Seed | Series A'' TString None None None None"
  by code_simp

lemma split_no_separator: "c \<notin> set p \<Longrightarrow> split c p = [p]"
  by (induction p) auto

lemma split_append_separator:
  "c \<notin> set p \<Longrightarrow> split c (p @ c # rest) = p # split c rest"
  by (induction p) auto

lemma split_join:
  assumes "parts \<noteq> []" and "\<forall>p\<in>set parts. c \<notin> set p"
  shows "split c (join [c] parts) = parts"
  using assms
proof (induction parts)
  case Nil
  then show ?case by simp
next
  case (Cons p ps)
  show ?case
  proof (cases ps)
    case Nil
    with Cons.prems show ?thesis by (simp add: join_def split_no_separator)
  next
    case (Cons q qs)
    with Cons.IH Cons.prems have "split c (join [c] ps) = ps" by simp
    moreover have "join [c] (p # ps) = p @ c # join [c] ps"
      using Cons by (simp add: join_def)
    ultimately show ?thesis
      using Cons.prems by (simp add: split_append_separator)
  qed
qed

lemma set_join:
  "set (join sep parts) \<subseteq> set sep \<union> \<Union> (set ` set parts)"
  by (cases parts) (auto simp: join_def)

lemma match_cascade_from_no_operator_char:
  "\<forall>c\<in>set s. c \<noteq> CHR ''<'' \<and> c \<noteq> CHR ''~'' \<and> c \<noteq> CHR ''-'' \<Longrightarrow>
   match_cascade_from acc s = None"
proof (induction s arbitrary: acc)
  case Nil
  then show ?case by simp
next
  case (Cons c cs)
  have "\<not> operatorAt (dropWhile isSpace (c # cs))"
  proof
    assume "operatorAt (dropWhile isSpace (c # cs))"
    then have ne: "dropWhile isSpace (c # cs) \<noteq> []"
      and h: "hd (dropWhile isSpace (c # cs)) = CHR ''<'' \<or> hd (dropWhile isSpace (c # cs)) = CHR ''~''
                 \<or> hd (dropWhile isSpace (c # cs)) = CHR ''-''"
      using operatorAt_hd by blast+
    from ne have "hd (dropWhile isSpace (c # cs)) \<in> set (dropWhile isSpace (c # cs))"
      by (rule hd_in_set)
    then have "hd (dropWhile isSpace (c # cs)) \<in> set (c # cs)"
      by (rule set_dropWhileD)
    with Cons.prems h show False by blast
  qed
  then have "match_operator CASCADE_OPERATORS (dropWhile isSpace (c # cs)) = None"
    by (simp add: match_operator_None operatorAt_def)
  moreover have "match_cascade_from (acc @ [c]) cs = None"
    using Cons by simp
  ultimately show ?case by simp
qed

lemma match_type_suffix_no_paren:
  "CHR ''('' \<notin> set s \<Longrightarrow> match_type_suffix acc s = None"
proof (induction s arbitrary: acc)
  case Nil
  then show ?case by simp
next
  case (Cons c cs)
  have "match_type_suffix_at (c # cs) = None"
  proof (cases "dropWhile isSpace (c # cs)")
    case Nil
    then show ?thesis by (simp add: match_type_suffix_at_def)
  next
    case (Cons d ds)
    then have "d \<in> set (dropWhile isSpace (c # cs))" by simp
    then have "d \<in> set (c # cs)" by (rule set_dropWhileD)
    with Cons.prems \<open>CHR ''('' \<notin> set (c # cs)\<close> have "d \<noteq> CHR ''(''" by blast
    with Cons show ?thesis by (simp add: match_type_suffix_at_def)
  qed
  moreover have "match_type_suffix (acc @ [c]) cs = None"
    using Cons by simp
  ultimately show ?case by simp
qed

lemma word_or_space_not_punctuation:
  assumes "isWord c \<or> isSpace c"
  shows "c \<notin> set ''|<~-(:''"
proof
  assume "c \<in> set ''|<~-(:''"
  then have "\<not> isWord c \<and> \<not> isSpace c"
    using punctuation_not_word_or_space by auto
  with assms show False by blast
qed

lemma bar_word_space_text:
  assumes "\<forall>c\<in>set v. c = CHR ''|'' \<or> isWord c \<or> isSpace c"
  shows "\<forall>c\<in>set v. c \<noteq> CHR ''<'' \<and> c \<noteq> CHR ''~'' \<and> c \<noteq> CHR ''-''"
    and "CHR ''('' \<notin> set v" and "CHR '':'' \<notin> set v"
proof -
  have *: "c \<noteq> CHR ''<'' \<and> c \<noteq> CHR ''~'' \<and> c \<noteq> CHR ''-'' \<and> c \<noteq> CHR ''('' \<and> c \<noteq> CHR '':''"
    if "c \<in> set v" for c
  proof (cases "c = CHR ''|''")
    case True
    then show ?thesis by simp
  next
    case False
    with assms that have "isWord c \<or> isSpace c" by blast
    then have "c \<notin> set ''|<~-(:''" by (rule word_or_space_not_punctuation)
    then show ?thesis by simp
  qed
  then show "\<forall>c\<in>set v. c \<noteq> CHR ''<'' \<and> c \<noteq> CHR ''~'' \<and> c \<noteq> CHR ''-''" by blast
  from * show "CHR ''('' \<notin> set v" by blast
  from * show "CHR '':'' \<notin> set v" by blast
qed

text \<open>
  Claim C6, as amended. A text that is two or more alternatives separated by bars, each
  alternative non-empty and made of word characters and white space only, is parsed as a
  field of type enum whose values are the alternatives, each without its surrounding white
  space, in their order.
\<close>

theorem word_alternatives_parse_to_enum:
  assumes "2 \<le> length parts"
    and "list_all (\<lambda>p. p \<noteq> [] \<and> list_all (\<lambda>c. isWord c \<or> isSpace c) p) parts"
  shows "fst (parseField nm (VStr (join ''|'' parts)) li)
           = ParsedField nm (trim (join ''|'' parts)) TEnum (Some (map trim parts)) None None None"
proof -
  let ?v = "join ''|'' parts"
  from assms(1) have ne: "parts \<noteq> []" by auto
  from assms(2) have chars: "\<forall>p\<in>set parts. \<forall>c\<in>set p. isWord c \<or> isSpace c"
    by (simp add: list_all_iff)
  have nobar: "\<forall>p\<in>set parts. CHR ''|'' \<notin> set p"
  proof (intro ballI notI)
    fix p assume "p \<in> set parts" "CHR ''|'' \<in> set p"
    with chars have "isWord (CHR ''|'') \<or> isSpace (CHR ''|'')" by blast
    then show False using punctuation_not_word_or_space by blast
  qed
  have sp: "split (CHR ''|'') ?v = parts"
    using split_join [OF ne nobar] by simp
  have enum: "ENUM_REGEX ?v"
    using sp assms by (simp add: ENUM_REGEX_def)
  have inv: "\<forall>c\<in>set ?v. c = CHR ''|'' \<or> isWord c \<or> isSpace c"
  proof
    fix c assume "c \<in> set ?v"
    with set_join [of "''|''" parts] have "c \<in> set ''|'' \<union> \<Union> (set ` set parts)" by blast
    with chars show "c = CHR ''|'' \<or> isWord c \<or> isSpace c" by auto
  qed
  note punct = bar_word_space_text [OF inv]
  have route: "ROUTE_PARAM_REGEX ?v = None"
    using punct(3) by (cases ?v) (auto simp: ROUTE_PARAM_REGEX_def)
  then have pv: "parseValue ?v = ?v" by (simp add: parseValue_def)
  have "CASCADE_REGEX ?v = None"
    using match_cascade_from_no_operator_char [OF punct(1)] by (simp add: CASCADE_REGEX_def)
  with pv have pc: "parseCascade ?v = (?v, None)"
    by (simp add: parseCascade_def)
  have ts: "TYPE_SUFFIX_REGEX ?v = None"
    using match_type_suffix_no_paren [OF punct(2)] by (simp add: TYPE_SUFFIX_REGEX_def)
  have "parseStringField nm ?v
          = ParsedField nm (trim ?v) TEnum (Some (map trim parts)) None None None"
    using pc ts enum sp
    by (simp add: parseStringField_def stripTypeSuffix_def parseFieldType_def parseEnumValues_def)
  then show ?thesis by simp
qed

theorem word_alternatives_parse_to_enum_witness:
  "2 \<le> length [''Idea '', '' Validation '', '' Growth'']
   \<and> list_all (\<lambda>p. p \<noteq> [] \<and> list_all (\<lambda>c. isWord c \<or> isSpace c) p)
        [''Idea '', '' Validation '', '' Growth'']
   \<and> join ''|'' [''Idea '', '' Validation '', '' Growth''] = ''Idea | Validation | Growth''
   \<and> fst (parseField ''stage'' (VStr ''Idea | Validation | Growth'') 0)
       = ParsedField ''stage'' ''Idea | Validation | Growth'' TEnum
           (Some [''Idea'', ''Validation'', ''Growth'']) None None None"
proof -
  have h1: "2 \<le> length [''Idea '', '' Validation '', '' Growth'']" by simp
  have h2: "list_all (\<lambda>p. p \<noteq> [] \<and> list_all (\<lambda>c. isWord c \<or> isSpace c) p)
        [''Idea '', '' Validation '', '' Growth'']" by code_simp
  have j: "join ''|'' [''Idea '', '' Validation '', '' Growth''] = ''Idea | Validation | Growth''"
    by code_simp
  have t: "trim ''Idea | Validation | Growth'' = ''Idea | Validation | Growth''" by code_simp
  have m: "map trim [''Idea '', '' Validation '', '' Growth''] = [''Idea'', ''Validation'', ''Growth'']"
    by code_simp
  from word_alternatives_parse_to_enum [OF h1 h2, of "''stage''" 0]
  have "fst (parseField ''stage'' (VStr ''Idea | Validation | Growth'') 0)
       = ParsedField ''stage'' ''Idea | Validation | Growth'' TEnum
           (Some [''Idea'', ''Validation'', ''Growth'']) None None None"
    unfolding j t m .
  with h1 h2 j show ?thesis by blast
qed


section \<open>The round trip of a noun through its serialised form\<close>

text \<open>
  The fields \<^verbatim>\<open>serializeNoun\<close> writes for the noun of a definition are the decisions of the
  loop of \<^verbatim>\<open>Noun\<close>, key by key; the definition \<^verbatim>\<open>parseNoun\<close> rebuilds from them holds, for
  every field it can rebuild, a value on which the loop decides again.
\<close>

lemma distinct_assignAll:
  "distinct (map fst acc) \<Longrightarrow> distinct (map fst (assignAll g xs acc))"
  unfolding assignAll_def
  by (induction xs arbitrary: acc) (simp_all add: distinct_update)

lemma map_of_assignAll:
  "distinct (map fst xs) \<Longrightarrow>
     map_of (assignAll g xs acc) k =
       (case map_of xs k of Some x \<Rightarrow> Some (g x) | None \<Rightarrow> map_of acc k)"
  unfolding assignAll_def
proof (induction xs arbitrary: acc)
  case Nil
  show ?case by simp
next
  case (Cons kx xs)
  obtain k0 x0 where kx: "kx = (k0, x0)" by (cases kx)
  from Cons.prems kx have d: "distinct (map fst xs)" and n: "map_of xs k0 = None"
    by (auto simp: map_of_eq_None_iff)
  show ?case
    using Cons.IH [OF d, of "AList.update k0 (g x0) acc"] n
    by (auto simp: kx update_conv' split: option.splits)
qed

lemma map_of_sfields:
  assumes "wellFormed m"
  shows "map_of (sfields (serializeNoun ts m)) k =
     (case map_of (fuzzy m) k of Some t \<Rightarrow> Some (fieldOf ts (CFuzzy t)) | None \<Rightarrow>
     (case map_of (link m) k of Some l \<Rightarrow> Some (fieldOf ts (CLink (fst l) (snd l))) | None \<Rightarrow>
     (case map_of (generate m) k of Some p \<Rightarrow> Some (fieldOf ts (CGenerate p)) | None \<Rightarrow>
     (case map_of (aggregate m) k of Some a \<Rightarrow> Some (fieldOf ts (CAggregate (fst a) (snd a))) | None \<Rightarrow>
     (case map_of (compute m) k of Some f \<Rightarrow> Some (fieldOf ts (CCompute f)) | None \<Rightarrow>
     (case map_of (ref m) k of Some p \<Rightarrow> Some (fieldOf ts (CRef p)) | None \<Rightarrow>
     (case map_of (sync m) k of Some s \<Rightarrow> Some (fieldOf ts (CSync s)) | None \<Rightarrow>
     (case map_of (input m) k of Some d \<Rightarrow> Some (fieldOf ts (CInput d)) | None \<Rightarrow> None))))))))"
  using assms
  by (simp add: serializeNoun_def wellFormed_def map_of_assignAll fieldOf_def cong: option.case_cong)

lemma distinct_sfields: "distinct (map fst (sfields (serializeNoun ts m)))"
  by (simp add: serializeNoun_def distinct_assignAll)

lemma wellFormed_writeMeta: "wellFormed m \<Longrightarrow> wellFormed (writeMeta k c m)"
  by (cases c) (simp_all add: wellFormed_def writeMeta_def distinct_update)

lemma sfields_None:
  assumes "wellFormed m" and "map_of (sfields (serializeNoun ts m)) k = None"
  shows "map_of (fuzzy m) k = None" "map_of (link m) k = None" "map_of (generate m) k = None"
    "map_of (aggregate m) k = None" "map_of (compute m) k = None" "map_of (ref m) k = None"
    "map_of (sync m) k = None" "map_of (input m) k = None"
  using assms(2) unfolding map_of_sfields [OF assms(1)]
  by (simp_all split: option.splits)

lemma map_of_sfields_writeMeta:
  assumes "wellFormed m" and "map_of (sfields (serializeNoun ts m)) k = None"
  shows "map_of (sfields (serializeNoun ts (writeMeta k c m))) k' =
     (if k' = k then Some (fieldOf ts c) else map_of (sfields (serializeNoun ts m)) k')"
proof (cases "k' = k")
  case True
  show ?thesis
    unfolding map_of_sfields [OF wellFormed_writeMeta [OF assms(1)]] True
    using sfields_None [OF assms]
    by (cases c) (simp_all add: writeMeta_def update_conv')
next
  case False
  show ?thesis
    unfolding map_of_sfields [OF wellFormed_writeMeta [OF assms(1)]] map_of_sfields [OF assms(1)]
    using False
    by (cases c) (simp_all add: writeMeta_def update_conv' cong: option.case_cong)
qed

lemma wellFormed_nounEntry: "wellFormed m \<Longrightarrow> wellFormed (nounEntry ts k v m)"
  by (simp add: nounEntry_def wellFormed_writeMeta split: option.splits)

lemma map_of_sfields_nounEntry:
  assumes "wellFormed m" and "map_of (sfields (serializeNoun ts m)) k = None"
  shows "map_of (sfields (serializeNoun ts (nounEntry ts k v m))) k' =
     (if k' = k
      then (case classOf ts [(k, v)] k of Some c \<Rightarrow> Some (fieldOf ts c) | None \<Rightarrow> None)
      else map_of (sfields (serializeNoun ts m)) k')"
  using assms
  by (simp add: nounEntry_def classOf_def map_of_sfields_writeMeta split: option.splits)

lemma map_of_sfields_nounEntries:
  "distinct (map fst d) \<Longrightarrow> wellFormed m \<Longrightarrow>
   (\<And>k. k \<in> fst ` set d \<Longrightarrow> map_of (sfields (serializeNoun ts m)) k = None) \<Longrightarrow>
   wellFormed (nounEntries ts d m) \<and>
   map_of (sfields (serializeNoun ts (nounEntries ts d m))) k =
     (case classOf ts d k of
        Some c \<Rightarrow> Some (fieldOf ts c)
      | None \<Rightarrow> if k \<in> fst ` set d then None else map_of (sfields (serializeNoun ts m)) k)"
proof (induction d arbitrary: m)
  case Nil
  then show ?case by (simp add: classOf_def)
next
  case (Cons kv d)
  obtain k0 v0 where kv: "kv = (k0, v0)" by (cases kv)
  let ?m = "nounEntry ts k0 v0 m"
  from Cons.prems(1) kv have d: "distinct (map fst d)" and k0: "k0 \<notin> fst ` set d"
    by auto
  have w: "wellFormed ?m" using Cons.prems(2) by (rule wellFormed_nounEntry)
  have n0: "map_of (sfields (serializeNoun ts m)) k0 = None"
    using Cons.prems(3) [of k0] kv by simp
  have n: "map_of (sfields (serializeNoun ts ?m)) k = None" if "k \<in> fst ` set d" for k
  proof -
    from that k0 have "k \<noteq> k0" by auto
    then show ?thesis
      using Cons.prems(3) [of k] that
      by (simp add: map_of_sfields_nounEntry [OF Cons.prems(2) n0])
  qed
  note IH = Cons.IH [OF d w n]
  have none: "map_of d k0 = None" using k0 by (simp add: map_of_eq_None_iff)
  show ?case
  proof (cases "k = k0")
    case True
    have "classOf ts d k0 = None" using none by (simp add: classOf_def)
    then show ?thesis
      using IH k0 True
      by (simp add: kv map_of_sfields_nounEntry [OF Cons.prems(2) n0] classOf_def
            split: option.splits)
  next
    case False
    then have "classOf ts (kv # d) k = classOf ts d k" by (simp add: kv classOf_def)
    then show ?thesis
      using IH False
      by (simp add: kv map_of_sfields_nounEntry [OF Cons.prems(2) n0] split: option.splits)
  qed
qed

lemma wellFormed_initialMeta: "wellFormed (initialMeta d)"
  by (simp add: wellFormed_def initialMeta_def)

lemma sfields_initialMeta: "map_of (sfields (serializeNoun ts (initialMeta d))) k = None"
  by (simp add: map_of_sfields [OF wellFormed_initialMeta]) (simp add: initialMeta_def)

lemma map_of_sfields_Noun:
  assumes "distinct (map fst d)"
  shows "map_of (sfields (serializeNoun ts (Noun ts d))) k =
     map_option (fieldOf ts) (classOf ts d k)"
  using map_of_sfields_nounEntries
    [where ts = ts and d = d and m = "initialMeta d" and k = k,
     OF assms wellFormed_initialMeta sfields_initialMeta]
  by (simp add: Noun_def sfields_initialMeta split: option.splits)

lemma wellFormed_Noun: "distinct (map fst d) \<Longrightarrow> wellFormed (Noun ts d)"
  using map_of_sfields_nounEntries
    [where ts = ts and d = d and m = "initialMeta d",
     OF _ wellFormed_initialMeta sfields_initialMeta]
  by (simp add: Noun_def)

lemma rebuildDefinition_lookup:
  "distinct (map fst fs) \<Longrightarrow>
   \<forall>f \<in> snd ` set fs. reconstruct ts f \<noteq> RebuildFails \<Longrightarrow>
   distinct (map fst acc) \<Longrightarrow>
   \<exists>d2. rebuildDefinition ts fs acc = Some d2 \<and> distinct (map fst d2) \<and>
     (\<forall>k. map_of d2 k =
        (case map_of fs k of
           Some f \<Rightarrow> (case reconstruct ts f of Rebuilt v \<Rightarrow> Some v | _ \<Rightarrow> map_of acc k)
         | None \<Rightarrow> map_of acc k))"
proof (induction fs arbitrary: acc)
  case Nil
  then show ?case by simp
next
  case (Cons kf fs)
  obtain k0 f0 where kf: "kf = (k0, f0)" by (cases kf)
  from Cons.prems(1) kf have d: "distinct (map fst fs)" and none: "map_of fs k0 = None"
    by (auto simp: map_of_eq_None_iff)
  have ok: "\<forall>f \<in> snd ` set fs. reconstruct ts f \<noteq> RebuildFails"
    using Cons.prems(2) by simp
  have ok0: "reconstruct ts f0 \<noteq> RebuildFails"
    using Cons.prems(2) kf by simp
  show ?case
  proof (cases "reconstruct ts f0")
    case (Rebuilt v)
    have da: "distinct (map fst (AList.update k0 v acc))"
      using Cons.prems(3) by (rule distinct_update)
    from Cons.IH [OF d ok da] obtain d2 where
      r: "rebuildDefinition ts fs (AList.update k0 v acc) = Some d2" and
      dd: "distinct (map fst d2)" and
      l: "\<And>k. map_of d2 k =
        (case map_of fs k of
           Some f \<Rightarrow> (case reconstruct ts f of Rebuilt v' \<Rightarrow> Some v'
                     | _ \<Rightarrow> map_of (AList.update k0 v acc) k)
         | None \<Rightarrow> map_of (AList.update k0 v acc) k)"
      by blast
    have "map_of d2 k =
        (case map_of (kf # fs) k of
           Some f \<Rightarrow> (case reconstruct ts f of Rebuilt v \<Rightarrow> Some v | _ \<Rightarrow> map_of acc k)
         | None \<Rightarrow> map_of acc k)" for k
      using none Rebuilt
      by (cases "k = k0") (simp_all add: l kf update_conv' cong: option.case_cong rebuilt.case_cong)
    with r dd show ?thesis by (simp add: kf Rebuilt)
  next
    case NotRebuilt
    from Cons.IH [OF d ok Cons.prems(3)] obtain d2 where
      r: "rebuildDefinition ts fs acc = Some d2" and
      dd: "distinct (map fst d2)" and
      l: "\<And>k. map_of d2 k =
        (case map_of fs k of
           Some f \<Rightarrow> (case reconstruct ts f of Rebuilt v' \<Rightarrow> Some v' | _ \<Rightarrow> map_of acc k)
         | None \<Rightarrow> map_of acc k)"
      by blast
    have "map_of d2 k =
        (case map_of (kf # fs) k of
           Some f \<Rightarrow> (case reconstruct ts f of Rebuilt v \<Rightarrow> Some v | _ \<Rightarrow> map_of acc k)
         | None \<Rightarrow> map_of acc k)" for k
      using none NotRebuilt
      by (cases "k = k0") (simp_all add: l kf)
    with r dd show ?thesis by (simp add: kf NotRebuilt)
  next
    case RebuildFails
    with ok0 show ?thesis by simp
  qed
qed

lemma classifyPath_kind:
  "classifyPath ts v = Some c \<Longrightarrow> source (fieldOf ts c) \<in> {Sync, Ref, Compute}"
  by (auto simp: classifyPath_def fieldOf_def split: nval.splits list.splits if_splits)

lemma reconstruct_fieldOf_total: "reconstruct ts (fieldOf ts c) \<noteq> RebuildFails"
  by (cases c) (simp_all add: reconstruct_def fieldOf_def nullish_def split: option.splits)

lemma classify_object_cases:
  assumes "classify ts v = Some c" and "stringOf v = None" and "classifyPath ts v \<noteq> Some c"
  shows "(\<exists>p. c = CAggregate ''sum'' p) \<or> (\<exists>p. c = CAggregate ''count'' p) \<or>
    (\<exists>p. c = CAggregate ''avg'' p) \<or> (\<exists>p. c = CAggregate ''min'' p) \<or>
    (\<exists>p. c = CAggregate ''max'' p) \<or> (\<exists>t. c = CFuzzy t) \<or> (\<exists>t f. c = CLink t f)"
  using assms by (auto simp: classify_def split: option.splits)

lemma classify_rebuilt_aggregate:
  "opn \<in> {''sum'', ''count'', ''avg'', ''min'', ''max''} \<Longrightarrow>
   reconstruct ts (fieldOf ts (CAggregate opn p)) = Rebuilt (NObj [(''$'' @ opn, NStr p)]) \<and>
   classify ts (NObj [(''$'' @ opn, NStr p)]) = Some (CAggregate opn p)"
  by (auto simp: reconstruct_def fieldOf_def nullish_def nprop_def templateText_def classify_def
        stringOf_def)

lemma classify_rebuilt_fuzzy:
  "reconstruct ts (fieldOf ts (CFuzzy t)) = Rebuilt (NObj [(''$fuzzy'', NStr t)]) \<and>
   classify ts (NObj [(''$fuzzy'', NStr t)]) = Some (CFuzzy t)"
  by (simp add: reconstruct_def fieldOf_def nprop_def classify_def stringOf_def)

lemma classify_roundTrip:
  assumes "classify ts v = Some c" and "isRoundTripKind (source (fieldOf ts c))"
  shows "\<exists>v'. reconstruct ts (fieldOf ts c) = Rebuilt v' \<and> classify ts v' = Some c"
proof (cases "stringOf v")
  case (Some s)
  with assms(1) show ?thesis
    by (auto simp: classify_def reconstruct_def fieldOf_def stringOf_def split: if_splits)
next
  case None
  from assms(2) classifyPath_kind [of ts v c]
  have p: "classifyPath ts v \<noteq> Some c"
    by (auto simp: isRoundTripKind_def)
  from classify_object_cases [OF assms(1) None p] assms(2)
  consider opn q where "c = CAggregate opn q" "opn \<in> {''sum'', ''count'', ''avg'', ''min'', ''max''}"
    | t where "c = CFuzzy t"
    by (auto simp: isRoundTripKind_def fieldOf_def)
  then show ?thesis
  proof cases
    case 1
    then show ?thesis using classify_rebuilt_aggregate [of opn ts q] by blast
  next
    case 2
    then show ?thesis using classify_rebuilt_fuzzy [of ts t] by blast
  qed
qed

text \<open>
  Claim C5. \<open>d\<close> is a definition, an object: no key twice. \<^verbatim>\<open>parseNoun\<close> returns on the
  serialised noun of \<open>d\<close>, and every field that \<^verbatim>\<open>serializeNoun\<close> gives the source \<^verbatim>\<open>input\<close>,
  \<^verbatim>\<open>generate\<close>, \<^verbatim>\<open>aggregate\<close> or \<^verbatim>\<open>fuzzy\<close> in the noun of \<open>d\<close> has the same source in the
  serialised form of the noun that \<^verbatim>\<open>parseNoun\<close> returns.
\<close>

theorem serialize_parse_serialize_keeps_source_kinds:
  assumes "distinct (map fst d)"
  shows "\<exists>m. parseNoun ts (serializeNoun ts (Noun ts d)) = Some m \<and>
     (\<forall>k s. sourceOf (serializeNoun ts (Noun ts d)) k = Some s \<longrightarrow> isRoundTripKind s \<longrightarrow>
        sourceOf (serializeNoun ts m) k = Some s)"
proof -
  let ?S = "serializeNoun ts (Noun ts d)"
  let ?acc = "[(''$type'', stype ?S), (''$context'', scontext ?S)]"
  have fields: "map_of (sfields ?S) k = map_option (fieldOf ts) (classOf ts d k)" for k
    using assms by (rule map_of_sfields_Noun)
  have total: "\<forall>f \<in> snd ` set (sfields ?S). reconstruct ts f \<noteq> RebuildFails"
  proof
    fix f assume "f \<in> snd ` set (sfields ?S)"
    then obtain k where "(k, f) \<in> set (sfields ?S)" by auto
    with distinct_sfields [of ts "Noun ts d"] have "map_of (sfields ?S) k = Some f"
      by (simp add: map_of_eq_Some_iff)
    with fields [of k] obtain c where "f = fieldOf ts c"
      by (cases "classOf ts d k") auto
    then show "reconstruct ts f \<noteq> RebuildFails" by (simp add: reconstruct_fieldOf_total)
  qed
  have "distinct (map fst ?acc)" by simp
  from rebuildDefinition_lookup [OF distinct_sfields total this] obtain d2 where
    r: "rebuildDefinition ts (sfields ?S) ?acc = Some d2" and
    dd: "distinct (map fst d2)" and
    l: "\<And>k. map_of d2 k =
        (case map_of (sfields ?S) k of
           Some f \<Rightarrow> (case reconstruct ts f of Rebuilt v \<Rightarrow> Some v | _ \<Rightarrow> map_of ?acc k)
         | None \<Rightarrow> map_of ?acc k)"
    by blast
  have p: "parseNoun ts ?S = Some (Noun ts d2)"
    using r by (simp add: parseNoun_def)
  have "sourceOf (serializeNoun ts (Noun ts d2)) k = Some s"
    if s: "sourceOf ?S k = Some s" and kind: "isRoundTripKind s" for k s
  proof -
    from s fields [of k] obtain c where c: "classOf ts d k = Some c" and sc: "source (fieldOf ts c) = s"
      by (auto simp: sourceOf_def)
    from c obtain v where v: "classify ts v = Some c" and dollar: "\<not> startsWith k ''$''"
      by (auto simp: classOf_def split: option.splits if_splits)
    from classify_roundTrip [OF v] kind sc obtain v' where
      v': "reconstruct ts (fieldOf ts c) = Rebuilt v'" "classify ts v' = Some c"
      by auto
    have "map_of d2 k = Some v'"
      by (simp add: l fields c v')
    with dollar v' have "classOf ts d2 k = Some c" by (simp add: classOf_def)
    then show ?thesis
      using sc by (simp add: sourceOf_def map_of_sfields_Noun [OF dd])
  qed
  with p show ?thesis by blast
qed

text \<open>
  The round trip of the business definition: its fields \<^verbatim>\<open>domain\<close>, \<^verbatim>\<open>positioning\<close>, \<^verbatim>\<open>mrr\<close> and
  \<^verbatim>\<open>occupation\<close> keep their sources.
\<close>

theorem serialize_parse_serialize_keeps_source_kinds_witness:
  "distinct (map fst businessDefinition) \<and>
   (\<exists>m. parseNoun sourceText (serializeNoun sourceText (Noun sourceText businessDefinition)) = Some m \<and>
      sourceOf (serializeNoun sourceText m) ''domain'' = Some Input \<and>
      sourceOf (serializeNoun sourceText m) ''positioning'' = Some Generate \<and>
      sourceOf (serializeNoun sourceText m) ''mrr'' = Some Aggregate \<and>
      sourceOf (serializeNoun sourceText m) ''occupation'' = Some Fuzzy)"
proof -
  let ?S = "serializeNoun sourceText (Noun sourceText businessDefinition)"
  have d: "distinct (map fst businessDefinition)" by code_simp
  have s: "sourceOf ?S ''domain'' = Some Input" "sourceOf ?S ''positioning'' = Some Generate"
    "sourceOf ?S ''mrr'' = Some Aggregate" "sourceOf ?S ''occupation'' = Some Fuzzy"
    by code_simp+
  have k: "isRoundTripKind Input" "isRoundTripKind Generate" "isRoundTripKind Aggregate"
    "isRoundTripKind Fuzzy"
    by code_simp+
  from serialize_parse_serialize_keeps_source_kinds [OF d, of sourceText] obtain m where
    "parseNoun sourceText ?S = Some m" and
    "\<And>k s. sourceOf ?S k = Some s \<Longrightarrow> isRoundTripKind s \<Longrightarrow>
       sourceOf (serializeNoun sourceText m) k = Some s"
    by blast
  with d s k show ?thesis by blast
qed

section \<open>The order of \<^verbatim>\<open>inferContext\<close>\<close>

text \<open>
  Claim C9. \<^verbatim>\<open>inferContext\<close> returns the value of the first source that yields one, in the
  order: the explicit global override, the host of the request, the environment variables,
  the static configuration, the fixed fallback \<^verbatim>\<open>http://localhost:3000\<close>. It is a function of
  what it reads, so the same inputs give the same result.
\<close>

theorem inferContext_follows_resolution_order:
  "firstSome (resolutionOrder g) = Some (inferContext g)"
  by (cases "process_env g")
     (auto simp: resolutionOrder_def inferContext_def explicitOverride_def requestDerivedHost_def
        environmentVariables_def staticConfig_def fixedFallback_def yield_def)

end
